theory Spec2Isabelle
  imports Complex_Main "HOL-Library.Monad_Syntax"
begin

section \<open>Numbers, randomness and shared data\<close>

text \<open>
  JavaScript numbers are modelled as reals. The one way the modelled code can leave the
  finite numbers is a division whose divisor is zero (the result is NaN or an infinity):
  \<open>js_div\<close> returns \<open>None\<close> there, and every function that divides returns an
  option, \<open>None\<close> standing for "a non-finite value was produced". The rounding and the
  overflow of doubles are outside the model.
\<close>

definition js_div :: "real \<Rightarrow> real \<Rightarrow> real option" where
  "js_div a b = (if b = 0 then None else Some (a / b))"

text \<open>The expression \<^verbatim>\<open>d || 1\<close>: a falsy number (zero) is replaced by 1.\<close>

definition or_one :: "real \<Rightarrow> real" where
  "or_one d = (if d = 0 then 1 else d)"

text \<open>
  \<^verbatim>\<open>Math.random()\<close> is the sequence of values it returns, with a counter of the calls
  made so far threaded through every function that draws.
\<close>

type_synonym rng = "nat \<Rightarrow> real"

definition unit_rng :: "rng \<Rightarrow> bool" where
  "unit_rng rnd = (\<forall>i. 0 \<le> rnd i \<and> rnd i < 1)"

record node =
  ax :: real
  ay :: real
  x :: real
  y :: real
  vx :: real
  vy :: real

record mouse =
  mouse_x :: real
  mouse_y :: real
  active :: bool

text \<open>
  \<^verbatim>\<open>onLeave\<close> and \<^verbatim>\<open>onMove\<close> (the same in both files; \<open>ex\<close> and \<open>ey\<close> are the
  coordinates of the event relative to the canvas) and the initial pointer state.
\<close>

definition onLeave :: "mouse \<Rightarrow> mouse" where
  "onLeave m = m\<lparr>mouse_x := -9999, mouse_y := -9999, active := False\<rparr>"

definition onMove :: "real \<Rightarrow> real \<Rightarrow> mouse \<Rightarrow> mouse" where
  "onMove ex ey m = m\<lparr>mouse_x := ex, mouse_y := ey, active := True\<rparr>"

definition mouse0 :: mouse where
  "mouse0 = \<lparr>mouse_x = -9999, mouse_y = -9999, active = False\<rparr>"

section \<open>Variant A: the forest of tree glyphs (bannerTreeCanvas)\<close>

record config_A =
  treeCount :: nat
  nodesPerTree :: nat
  minScale :: real
  maxScale :: real
  nodeRadius :: real
  nodeAlpha :: real
  spring :: real
  damping :: real
  maxSpeed :: real
  hoverRadius :: real
  repelStrength :: real
  noiseStrength :: real
  safeCenterXMin :: real
  safeCenterXMax :: real
  safeCenterYMin :: real
  safeCenterYMax :: real

definition CFG_A :: config_A where
  "CFG_A = \<lparr>treeCount = 10, nodesPerTree = 10, minScale = 26, maxScale = 44,
     nodeRadius = 55 / 10, nodeAlpha = 80 / 100,
     spring = 55 / 1000, damping = 86 / 100, maxSpeed = 7,
     hoverRadius = 95, repelStrength = 115 / 100, noiseStrength = 20 / 100,
     safeCenterXMin = 34 / 100, safeCenterXMax = 66 / 100,
     safeCenterYMin = 22 / 100, safeCenterYMax = 78 / 100\<rparr>"

record tree =
  cx :: real
  cy :: real
  scale :: real
  nodes :: "node list"

record state_A =
  trees :: "tree list"
  mouse_A :: mouse
  lastT_A :: real

definition clamp :: "real \<Rightarrow> real \<Rightarrow> real \<Rightarrow> real" where
  "clamp v lo hi = max lo (min hi v)"

subsection \<open>chooseTreeCenter\<close>

definition inSafeBox :: "config_A \<Rightarrow> real \<Rightarrow> real \<Rightarrow> bool" where
  "inSafeBox c nx ny =
     (nx > safeCenterXMin c \<and> nx < safeCenterXMax c \<and>
      ny > safeCenterYMin c \<and> ny < safeCenterYMax c)"

definition edgeBias :: "real \<Rightarrow> real \<Rightarrow> bool" where
  "edgeBias nx ny = (nx < 2 / 10 \<or> nx > 8 / 10 \<or> ny < 25 / 100 \<or> ny > 85 / 100)"

text \<open>
  The body of the retry loop from the try numbered \<open>tries\<close> on, then the fallback. The
  result is the returned pair and the counter of random draws.
\<close>

function chooseTreeCenter_from ::
  "config_A \<Rightarrow> rng \<Rightarrow> real \<Rightarrow> real \<Rightarrow> nat \<Rightarrow> nat \<Rightarrow> (real \<times> real) \<times> nat" where
  "chooseTreeCenter_from c rnd W H tries k =
     (if tries < 40 then
        (if \<not> inSafeBox c (rnd k) (rnd (k + 1)) \<and> edgeBias (rnd k) (rnd (k + 1))
         then ((rnd k * W, rnd (k + 1) * H), k + 2)
         else if \<not> inSafeBox c (rnd k) (rnd (k + 1)) \<and> tries > 15
         then ((rnd k * W, rnd (k + 1) * H), k + 2)
         else chooseTreeCenter_from c rnd W H (tries + 1) (k + 2))
      else ((rnd k * W, rnd (k + 1) * H), k + 2))"
  by pat_completeness auto
termination
  by (relation "measure (\<lambda>(c, rnd, W, H, tries, k). 40 - tries)") auto

declare chooseTreeCenter_from.simps [simp del]

definition chooseTreeCenter ::
  "config_A \<Rightarrow> rng \<Rightarrow> real \<Rightarrow> real \<Rightarrow> nat \<Rightarrow> (real \<times> real) \<times> nat" where
  "chooseTreeCenter c rnd W H k = chooseTreeCenter_from c rnd W H 0 k"

subsection \<open>step\<close>

text \<open>The spring back to the anchor.\<close>

definition spring_A :: "config_A \<Rightarrow> node \<Rightarrow> node" where
  "spring_A c n =
     n\<lparr>vx := vx n + (ax n - x n) * spring c, vy := vy n + (ay n - y n) * spring c\<rparr>"

text \<open>
  The block guarded by \<^verbatim>\<open>state.mouse.active\<close>: the repulsion of one node and its
  scatter, which draws two random numbers only inside the hover radius. \<open>force_A\<close> is
  the force \<^verbatim>\<open>f\<close> computed from the distance \<open>d\<close> (the lines setting \<^verbatim>\<open>t\<close> and
  \<^verbatim>\<open>f\<close>).
\<close>

definition force_A :: "config_A \<Rightarrow> real \<Rightarrow> real option" where
  "force_A c d =
     do {
       q \<leftarrow> js_div d (hoverRadius c);
       let t = 1 - q;
       Some (t * t * repelStrength c)
     }"

definition repel_A ::
  "config_A \<Rightarrow> rng \<Rightarrow> mouse \<Rightarrow> node \<Rightarrow> nat \<Rightarrow> (node \<times> nat) option" where
  "repel_A c rnd m n k =
     (let dx = x n - mouse_x m;
          dy = y n - mouse_y m;
          d = sqrt (dx * dx + dy * dy)
      in if d < hoverRadius c then
           do {
             f \<leftarrow> force_A c d;
             nx \<leftarrow> js_div dx (or_one d);
             ny \<leftarrow> js_div dy (or_one d);
             let n1 = n\<lparr>vx := vx n + nx * f * 16\<rparr>;
             let n2 = n1\<lparr>vy := vy n1 + ny * f * 16\<rparr>;
             let n3 = n2\<lparr>vx := vx n2 + (rnd k - 1 / 2) * noiseStrength c\<rparr>;
             let n4 = n3\<lparr>vy := vy n3 + (rnd (k + 1) - 1 / 2) * noiseStrength c\<rparr>;
             Some (n4, k + 2)
           }
         else Some (n, k))"

definition damp_A :: "config_A \<Rightarrow> node \<Rightarrow> node" where
  "damp_A c n = n\<lparr>vx := vx n * damping c, vy := vy n * damping c\<rparr>"

definition cap_A :: "config_A \<Rightarrow> node \<Rightarrow> node" where
  "cap_A c n =
     n\<lparr>vx := clamp (vx n) (- maxSpeed c) (maxSpeed c),
       vy := clamp (vy n) (- maxSpeed c) (maxSpeed c)\<rparr>"

definition integrate :: "real \<Rightarrow> node \<Rightarrow> node" where
  "integrate dt n = n\<lparr>x := x n + vx n * (dt * 60), y := y n + vy n * (dt * 60)\<rparr>"

text \<open>The loop body for one node.\<close>

definition step_node_A ::
  "config_A \<Rightarrow> rng \<Rightarrow> real \<Rightarrow> mouse \<Rightarrow> node \<Rightarrow> nat \<Rightarrow> (node \<times> nat) option" where
  "step_node_A c rnd dt m n k =
     do {
       (n1, k1) \<leftarrow> (if active m then repel_A c rnd m (spring_A c n) k
                     else Some (spring_A c n, k));
       Some (integrate dt (cap_A c (damp_A c n1)), k1)
     }"

fun step_nodes_A ::
  "config_A \<Rightarrow> rng \<Rightarrow> real \<Rightarrow> mouse \<Rightarrow> node list \<Rightarrow> nat \<Rightarrow> (node list \<times> nat) option" where
  "step_nodes_A c rnd dt m [] k = Some ([], k)"
| "step_nodes_A c rnd dt m (n # ns) k =
     do {
       (n1, k1) \<leftarrow> step_node_A c rnd dt m n k;
       (ns1, k2) \<leftarrow> step_nodes_A c rnd dt m ns k1;
       Some (n1 # ns1, k2)
     }"

fun step_trees_A ::
  "config_A \<Rightarrow> rng \<Rightarrow> real \<Rightarrow> mouse \<Rightarrow> tree list \<Rightarrow> nat \<Rightarrow> (tree list \<times> nat) option" where
  "step_trees_A c rnd dt m [] k = Some ([], k)"
| "step_trees_A c rnd dt m (t # ts) k =
     do {
       (ns1, k1) \<leftarrow> step_nodes_A c rnd dt m (nodes t) k;
       (ts1, k2) \<leftarrow> step_trees_A c rnd dt m ts k1;
       Some (t\<lparr>nodes := ns1\<rparr> # ts1, k2)
     }"

definition step_A ::
  "config_A \<Rightarrow> rng \<Rightarrow> real \<Rightarrow> state_A \<Rightarrow> nat \<Rightarrow> (state_A \<times> nat) option" where
  "step_A c rnd dt st k =
     do {
       (ts1, k1) \<leftarrow> step_trees_A c rnd dt (mouse_A st) (trees st) k;
       Some (st\<lparr>trees := ts1\<rparr>, k1)
     }"

text \<open>
  \<^verbatim>\<open>loop(t)\<close>: the clamped time step, the new \<^verbatim>\<open>lastT\<close> and one step. Drawing
  changes no state and the rescheduling is the next element of \<open>run_A\<close>'s list of
  timestamps.
\<close>

definition loop_A ::
  "config_A \<Rightarrow> rng \<Rightarrow> real \<Rightarrow> state_A \<Rightarrow> nat \<Rightarrow> (state_A \<times> nat) option" where
  "loop_A c rnd t st k =
     (let dt = min (33 / 1000) ((t - lastT_A st) / 1000)
      in step_A c rnd dt (st\<lparr>lastT_A := t\<rparr>) k)"

fun run_A ::
  "config_A \<Rightarrow> rng \<Rightarrow> real list \<Rightarrow> state_A \<Rightarrow> nat \<Rightarrow> (state_A \<times> nat) option" where
  "run_A c rnd [] st k = Some (st, k)"
| "run_A c rnd (t # ts) st k =
     do {
       (st1, k1) \<leftarrow> loop_A c rnd t st k;
       run_A c rnd ts st1 k1
     }"

section \<open>Variant B: the single tree point cloud (treeCanvas)\<close>

record config_B =
  canopyNodes :: nat
  trunkNodes :: nat
  nodeRadius_B :: real
  repelRadius :: real
  repelStrength_B :: real
  returnStrength :: real
  damping_B :: real
  linkDist :: real
  linkAlpha :: real

definition CFG_B :: config_B where
  "CFG_B = \<lparr>canopyNodes = 220, trunkNodes = 45, nodeRadius_B = 26 / 10,
     repelRadius = 110, repelStrength_B = 55 / 100, returnStrength = 6 / 100,
     damping_B = 86 / 100, linkDist = 34, linkAlpha = 22 / 100\<rparr>"

record state_B =
  nodes_B :: "node list"
  mouse_B :: mouse
  lastT_B :: real
  dpr :: real

subsection \<open>randn, makeNode, buildTree, resize\<close>

text \<open>
  \<^verbatim>\<open>while (u === 0) u = Math.random();\<close> with \<open>u\<close> the current value. The loop runs
  for as long as the generator returns zero, so it is a partial function: \<open>None\<close> is
  the loop that never ends.
\<close>

partial_function (option) redraw_zero :: "rng \<Rightarrow> real \<Rightarrow> nat \<Rightarrow> (real \<times> nat) option" where
  "redraw_zero rnd u k = (if u = 0 then redraw_zero rnd (rnd k) (k + 1) else Some (u, k))"

text \<open>
  Box-Muller. When the two loops end \<open>u\<close> and \<open>v\<close> are not zero, so for draws in
  \<open>[0, 1)\<close> the logarithm is finite and the root is taken of a positive number.
\<close>

definition randn :: "rng \<Rightarrow> nat \<Rightarrow> (real \<times> nat) option" where
  "randn rnd k =
     do {
       (u, k1) \<leftarrow> redraw_zero rnd 0 k;
       (v, k2) \<leftarrow> redraw_zero rnd 0 k1;
       Some (sqrt (- 2 * ln u) * cos (2 * pi * v), k2)
     }"

definition makeNode :: "real \<Rightarrow> real \<Rightarrow> node" where
  "makeNode px py = \<lparr>ax = px, ay = py, x = px, y = py, vx = 0, vy = 0\<rparr>"

text \<open>
  A counted loop that pushes one node per index: the body gets the index and the
  counter of random draws.
\<close>

fun push_each ::
  "(nat \<Rightarrow> nat \<Rightarrow> (node \<times> nat) option) \<Rightarrow> nat list \<Rightarrow> nat \<Rightarrow> (node list \<times> nat) option" where
  "push_each body [] k = Some ([], k)"
| "push_each body (i # is) k =
     do {
       (n, k1) \<leftarrow> body i k;
       (ns, k2) \<leftarrow> push_each body is k1;
       Some (n # ns, k2)
     }"

definition canopy_node ::
  "rng \<Rightarrow> real \<Rightarrow> real \<Rightarrow> nat \<Rightarrow> nat \<Rightarrow> (node \<times> nat) option" where
  "canopy_node rnd W H i k =
     (let t = rnd k;
          py = H * (2 / 10 + 65 / 100 * (1 - t));
          halfWidth = (W * (22 / 100)) * (25 / 100 + (1 - t) powr (75 / 100))
      in do {
           (g, k1) \<leftarrow> randn rnd (k + 1);
           Some (makeNode (W / 2 + g * halfWidth) py, k1)
         })"

definition trunk_node ::
  "config_B \<Rightarrow> rng \<Rightarrow> real \<Rightarrow> real \<Rightarrow> nat \<Rightarrow> nat \<Rightarrow> (node \<times> nat) option" where
  "trunk_node c rnd W H i k =
     do {
       t \<leftarrow> js_div (real i) (max 1 (real (trunkNodes c) - 1));
       let py = H * (88 / 100 - 55 / 100 * t);
       (g, k1) \<leftarrow> randn rnd k;
       Some (makeNode (W / 2 + g * (W * (12 / 1000))) py, k1)
     }"

definition buildTree ::
  "config_B \<Rightarrow> rng \<Rightarrow> real \<Rightarrow> real \<Rightarrow> nat \<Rightarrow> (node list \<times> nat) option" where
  "buildTree c rnd W H k =
     do {
       (canopy, k1) \<leftarrow> push_each (canopy_node rnd W H) [0..<canopyNodes c] k;
       (trunk, k2) \<leftarrow> push_each (trunk_node c rnd W H) [0..<trunkNodes c] k1;
       Some (canopy @ trunk, k2)
     }"

text \<open>
  \<^verbatim>\<open>resize()\<close>: the surface size from the element's rectangle (\<open>rw\<close>, \<open>rh\<close>) and a
  full rebuild of the nodes. The result carries the new \<^verbatim>\<open>W\<close> and \<^verbatim>\<open>H\<close>; the
  transform of the drawing context is outside the model.
\<close>

definition resize_B ::
  "config_B \<Rightarrow> rng \<Rightarrow> real \<Rightarrow> real \<Rightarrow> real \<Rightarrow> state_B \<Rightarrow> nat
     \<Rightarrow> ((real \<times> real) \<times> state_B \<times> nat) option" where
  "resize_B c rnd rw rh ratio st k =
     (let W = max 1 (of_int \<lfloor>rw\<rfloor>);
          H = max 1 (of_int \<lfloor>rh\<rfloor>)
      in do {
           (ns, k1) \<leftarrow> buildTree c rnd W H k;
           Some ((W, H), st\<lparr>dpr := min 2 (or_one ratio), nodes_B := ns\<rparr>, k1)
         })"

subsection \<open>step\<close>

definition spring_B :: "config_B \<Rightarrow> node \<Rightarrow> node" where
  "spring_B c n =
     (let toAx = ax n - x n;
          toAy = ay n - y n
      in n\<lparr>vx := vx n + toAx * returnStrength c, vy := vy n + toAy * returnStrength c\<rparr>)"

text \<open>
  The repulsion from the mouse, which reads the stored coordinates and never the
  \<^verbatim>\<open>active\<close> flag. \<open>force_B\<close> is the force \<^verbatim>\<open>f\<close> computed from the distance.
\<close>

definition force_B :: "config_B \<Rightarrow> real \<Rightarrow> real option" where
  "force_B c d =
     do {
       q \<leftarrow> js_div d (repelRadius c);
       Some ((1 - q) * repelStrength_B c)
     }"

definition repel_B :: "config_B \<Rightarrow> mouse \<Rightarrow> node \<Rightarrow> node option" where
  "repel_B c m n =
     (let dx = x n - mouse_x m;
          dy = y n - mouse_y m;
          d = sqrt (dx * dx + dy * dy)
      in if d < repelRadius c then
           do {
             f \<leftarrow> force_B c d;
             nx \<leftarrow> js_div dx (or_one d);
             ny \<leftarrow> js_div dy (or_one d);
             let n1 = n\<lparr>vx := vx n + nx * f * 18\<rparr>;
             Some (n1\<lparr>vy := vy n1 + ny * f * 18\<rparr>)
           }
         else Some n)"

definition damp_B :: "config_B \<Rightarrow> node \<Rightarrow> node" where
  "damp_B c n = n\<lparr>vx := vx n * damping_B c, vy := vy n * damping_B c\<rparr>"

definition step_node_B :: "config_B \<Rightarrow> real \<Rightarrow> mouse \<Rightarrow> node \<Rightarrow> node option" where
  "step_node_B c dt m n =
     do {
       n1 \<leftarrow> repel_B c m (spring_B c n);
       Some (integrate dt (damp_B c n1))
     }"

fun step_nodes_B :: "config_B \<Rightarrow> real \<Rightarrow> mouse \<Rightarrow> node list \<Rightarrow> node list option" where
  "step_nodes_B c dt m [] = Some []"
| "step_nodes_B c dt m (n # ns) =
     do {
       n1 \<leftarrow> step_node_B c dt m n;
       ns1 \<leftarrow> step_nodes_B c dt m ns;
       Some (n1 # ns1)
     }"

definition step_B :: "config_B \<Rightarrow> real \<Rightarrow> state_B \<Rightarrow> state_B option" where
  "step_B c dt st =
     do {
       ns1 \<leftarrow> step_nodes_B c dt (mouse_B st) (nodes_B st);
       Some (st\<lparr>nodes_B := ns1\<rparr>)
     }"

definition loop_B :: "config_B \<Rightarrow> real \<Rightarrow> state_B \<Rightarrow> state_B option" where
  "loop_B c t st =
     (let dt = min (33 / 1000) ((t - lastT_B st) / 1000)
      in step_B c dt (st\<lparr>lastT_B := t\<rparr>))"

fun run_B :: "config_B \<Rightarrow> real list \<Rightarrow> state_B \<Rightarrow> state_B option" where
  "run_B c [] st = Some st"
| "run_B c (t # ts) st =
     do {
       st1 \<leftarrow> loop_B c t st;
       run_B c ts st1
     }"

subsection \<open>draw: the links\<close>

text \<open>
  What reaches the drawing surface: a stroked segment with the alpha of its
  \<^verbatim>\<open>rgba(0,0,0,alpha)\<close> stroke style and its two end points, and a filled circle with
  its centre and radius. Clearing the surface and the constant line width and fill style
  are left out.
\<close>

datatype cmd =
  Stroke real real real real real
| Arc real real real

text \<open>\<^verbatim>\<open>alpha.toFixed(3)\<close>: the nearest multiple of 1/1000, the larger one at a tie.\<close>

definition toFixed3 :: "real \<Rightarrow> real" where
  "toFixed3 a = of_int \<lfloor>a * 1000 + 1 / 2\<rfloor> / 1000"

text \<open>The body of the inner loop for the nodes \<open>a\<close> and \<open>b\<close>.\<close>

definition link :: "config_B \<Rightarrow> node \<Rightarrow> node \<Rightarrow> cmd list option" where
  "link c a b =
     (let dx = x a - x b;
          dy = y a - y b;
          d2 = dx * dx + dy * dy;
          max2 = linkDist c * linkDist c
      in if d2 < max2 then
           do {
             q \<leftarrow> js_div d2 max2;
             let alpha = linkAlpha c * (1 - q);
             Some [Stroke (toFixed3 alpha) (x a) (y a) (x b) (y b)]
           }
         else Some [])"

fun each_cmds :: "(nat \<Rightarrow> cmd list option) \<Rightarrow> nat list \<Rightarrow> cmd list option" where
  "each_cmds body [] = Some []"
| "each_cmds body (i # is) =
     do {
       a \<leftarrow> body i;
       b \<leftarrow> each_cmds body is;
       Some (a @ b)
     }"

definition draw_links :: "config_B \<Rightarrow> node list \<Rightarrow> cmd list option" where
  "draw_links c ns =
     each_cmds (\<lambda>i. each_cmds (\<lambda>j. link c (ns ! i) (ns ! j)) [i + 1..<length ns])
       [0..<length ns]"

definition draw_B :: "config_B \<Rightarrow> state_B \<Rightarrow> cmd list option" where
  "draw_B c st =
     do {
       ls \<leftarrow> draw_links c (nodes_B st);
       Some (ls @ map (\<lambda>n. Arc (x n) (y n) (nodeRadius_B c)) (nodes_B st))
     }"

section \<open>Specification predicates\<close>

text \<open>A node at rest: on its anchor with no velocity.\<close>

definition at_rest :: "node \<Rightarrow> bool" where
  "at_rest n = (x n = ax n \<and> y n = ay n \<and> vx n = 0 \<and> vy n = 0)"

text \<open>
  The link law in the words of the specification: the squared distance of two nodes and
  the opacity \<open>linkAlpha * (1 - d\<^sup>2 / max\<^sup>2)\<close>.
\<close>

definition dist2 :: "node \<Rightarrow> node \<Rightarrow> real" where
  "dist2 a b = (x a - x b)\<^sup>2 + (y a - y b)\<^sup>2"

definition spec_link_alpha :: "config_B \<Rightarrow> node \<Rightarrow> node \<Rightarrow> real" where
  "spec_link_alpha c a b = linkAlpha c * (1 - dist2 a b / (linkDist c)\<^sup>2)"

section \<open>Auxiliary facts about one tick\<close>

lemma dist_nonneg: "0 \<le> sqrt (dx * dx + dy * dy)"
  by simp

lemma js_div_Some: "b \<noteq> 0 \<Longrightarrow> js_div a b = Some (a / b)"
  by (simp add: js_div_def)

lemma or_one_nonzero: "or_one d \<noteq> 0"
  by (simp add: or_one_def)

lemma js_div_or_one: "js_div a (or_one d) = Some (a / or_one d)"
  by (simp add: js_div_Some or_one_nonzero)

lemma force_A_Some:
  "hoverRadius c \<noteq> 0 \<Longrightarrow>
   force_A c d = Some ((1 - d / hoverRadius c) * (1 - d / hoverRadius c) * repelStrength c)"
  by (simp add: force_A_def js_div_Some Let_def)

lemma force_B_Some:
  "repelRadius c \<noteq> 0 \<Longrightarrow> force_B c d = Some ((1 - d / repelRadius c) * repelStrength_B c)"
  by (simp add: force_B_def js_div_Some)

lemma repel_A_far:
  "hoverRadius c \<le> sqrt ((x n - mouse_x m) * (x n - mouse_x m) + (y n - mouse_y m) * (y n - mouse_y m))
   \<Longrightarrow> repel_A c rnd m n k = Some (n, k)"
  by (simp add: repel_A_def Let_def)

lemma repel_A_near:
  assumes "sqrt ((x n - mouse_x m) * (x n - mouse_x m) + (y n - mouse_y m) * (y n - mouse_y m)) = d"
    and "d < hoverRadius c"
  shows "repel_A c rnd m n k =
     Some (n\<lparr>vx := vx n + (x n - mouse_x m) / or_one d
                  * ((1 - d / hoverRadius c) * (1 - d / hoverRadius c) * repelStrength c) * 16
                  + (rnd k - 1 / 2) * noiseStrength c,
             vy := vy n + (y n - mouse_y m) / or_one d
                  * ((1 - d / hoverRadius c) * (1 - d / hoverRadius c) * repelStrength c) * 16
                  + (rnd (k + 1) - 1 / 2) * noiseStrength c\<rparr>, k + 2)"
proof -
  have "0 \<le> d" using assms(1) dist_nonneg by blast
  then have "hoverRadius c \<noteq> 0" using assms(2) by linarith
  then show ?thesis
    using assms by (simp add: repel_A_def Let_def force_A_Some js_div_or_one)
qed

lemma repel_B_far:
  "repelRadius c \<le> sqrt ((x n - mouse_x m) * (x n - mouse_x m) + (y n - mouse_y m) * (y n - mouse_y m))
   \<Longrightarrow> repel_B c m n = Some n"
  by (simp add: repel_B_def Let_def)

lemma repel_B_near:
  assumes "sqrt ((x n - mouse_x m) * (x n - mouse_x m) + (y n - mouse_y m) * (y n - mouse_y m)) = d"
    and "d < repelRadius c"
  shows "repel_B c m n =
     Some (n\<lparr>vx := vx n + (x n - mouse_x m) / or_one d
                  * ((1 - d / repelRadius c) * repelStrength_B c) * 18,
             vy := vy n + (y n - mouse_y m) / or_one d
                  * ((1 - d / repelRadius c) * repelStrength_B c) * 18\<rparr>)"
proof -
  have "0 \<le> d" using assms(1) dist_nonneg by blast
  then have "repelRadius c \<noteq> 0" using assms(2) by linarith
  then show ?thesis
    using assms by (simp add: repel_B_def Let_def force_B_Some js_div_or_one)
qed

lemma repel_A_frame:
  "\<exists>n' k'. repel_A c rnd m n k = Some (n', k') \<and> ax n' = ax n \<and> ay n' = ay n
      \<and> x n' = x n \<and> y n' = y n \<and> k \<le> k' \<and> k' \<le> k + 2"
proof (cases "sqrt ((x n - mouse_x m) * (x n - mouse_x m) + (y n - mouse_y m) * (y n - mouse_y m)) < hoverRadius c")
  case True
  from repel_A_near [OF refl True] show ?thesis by simp
next
  case False
  then show ?thesis by (simp add: repel_A_far)
qed

lemma repel_B_frame:
  "\<exists>n'. repel_B c m n = Some n' \<and> ax n' = ax n \<and> ay n' = ay n \<and> x n' = x n \<and> y n' = y n"
proof (cases "sqrt ((x n - mouse_x m) * (x n - mouse_x m) + (y n - mouse_y m) * (y n - mouse_y m)) < repelRadius c")
  case True
  from repel_B_near [OF refl True] show ?thesis by simp
next
  case False
  then show ?thesis by (simp add: repel_B_far)
qed

lemma step_node_A_inactive:
  "\<not> active m \<Longrightarrow>
   step_node_A c rnd dt m n k = Some (integrate dt (cap_A c (damp_A c (spring_A c n))), k)"
  by (simp add: step_node_A_def)

lemma step_node_A_frame:
  "\<exists>n' k'. step_node_A c rnd dt m n k = Some (n', k') \<and> ax n' = ax n \<and> ay n' = ay n \<and> k \<le> k'"
proof (cases "active m")
  case True
  obtain n1 k1 where r: "repel_A c rnd m (spring_A c n) k = Some (n1, k1)"
    "ax n1 = ax (spring_A c n)" "ay n1 = ay (spring_A c n)" "k \<le> k1"
    using repel_A_frame [of c rnd m "spring_A c n" k] by blast
  with True show ?thesis
    by (simp add: step_node_A_def integrate_def cap_A_def damp_A_def spring_A_def)
next
  case False
  then show ?thesis
    by (simp add: step_node_A_inactive integrate_def cap_A_def damp_A_def spring_A_def)
qed


lemma step_nodes_A_frame:
  "\<exists>ns' k'. step_nodes_A c rnd dt m ns k = Some (ns', k') \<and> map ax ns' = map ax ns
      \<and> map ay ns' = map ay ns \<and> k \<le> k'"
proof (induction ns arbitrary: k)
  case Nil
  show ?case by simp
next
  case (Cons n ns)
  obtain n1 k1 where a: "step_node_A c rnd dt m n k = Some (n1, k1)" "ax n1 = ax n"
    "ay n1 = ay n" "k \<le> k1"
    using step_node_A_frame [of c rnd dt m n k] by blast
  obtain ns1 k2 where b: "step_nodes_A c rnd dt m ns k1 = Some (ns1, k2)"
    "map ax ns1 = map ax ns" "map ay ns1 = map ay ns" "k1 \<le> k2"
    using Cons.IH [of k1] by blast
  from a b show ?case by simp
qed

lemma step_trees_A_frame:
  "\<exists>ts' k'. step_trees_A c rnd dt m ts k = Some (ts', k') \<and> map cx ts' = map cx ts
      \<and> map cy ts' = map cy ts \<and> map scale ts' = map scale ts
      \<and> map (\<lambda>t. map ax (nodes t)) ts' = map (\<lambda>t. map ax (nodes t)) ts
      \<and> map (\<lambda>t. map ay (nodes t)) ts' = map (\<lambda>t. map ay (nodes t)) ts"
proof (induction ts arbitrary: k)
  case Nil
  show ?case by simp
next
  case (Cons t ts)
  obtain ns1 k1 where a: "step_nodes_A c rnd dt m (nodes t) k = Some (ns1, k1)"
    "map ax ns1 = map ax (nodes t)" "map ay ns1 = map ay (nodes t)"
    using step_nodes_A_frame [of c rnd dt m "nodes t" k] by blast
  obtain ts1 k2 where b: "step_trees_A c rnd dt m ts k1 = Some (ts1, k2)"
    "map cx ts1 = map cx ts" "map cy ts1 = map cy ts" "map scale ts1 = map scale ts"
    "map (\<lambda>t. map ax (nodes t)) ts1 = map (\<lambda>t. map ax (nodes t)) ts"
    "map (\<lambda>t. map ay (nodes t)) ts1 = map (\<lambda>t. map ay (nodes t)) ts"
    using Cons.IH [of k1] by blast
  from a b show ?case by simp
qed

lemma step_nodes_A_all:
  assumes "\<And>n k n' k'. step_node_A c rnd dt m n k = Some (n', k') \<Longrightarrow> P n'"
    and "step_nodes_A c rnd dt m ns k = Some (ns', k')"
  shows "\<forall>n\<in>set ns'. P n"
  using assms(2)
proof (induction ns arbitrary: k ns' k')
  case Nil
  then show ?case by simp
next
  case (Cons n ns)
  then show ?case
    by (auto simp: bind_eq_Some_conv dest: assms(1))
qed

lemma step_trees_A_all:
  assumes "\<And>n k n' k'. step_node_A c rnd dt m n k = Some (n', k') \<Longrightarrow> P n'"
    and "step_trees_A c rnd dt m ts k = Some (ts', k')"
  shows "\<forall>t\<in>set ts'. \<forall>n\<in>set (nodes t). P n"
  using assms(2)
proof (induction ts arbitrary: k ts' k')
  case Nil
  then show ?case by simp
next
  case (Cons t ts)
  then show ?case
    using step_nodes_A_all [of c rnd dt m P, OF assms(1)]
    by (fastforce simp: bind_eq_Some_conv)
qed

lemma clamp_range: "0 \<le> hi \<Longrightarrow> - hi \<le> clamp v (- hi) hi \<and> clamp v (- hi) hi \<le> hi"
  by (simp add: clamp_def)

lemma step_node_A_capped:
  assumes "step_node_A c rnd dt m n k = Some (n', k')" and "0 \<le> maxSpeed c"
  shows "- maxSpeed c \<le> vx n' \<and> vx n' \<le> maxSpeed c \<and> - maxSpeed c \<le> vy n' \<and> vy n' \<le> maxSpeed c"
proof -
  from assms(1) obtain n1 where "n' = integrate dt (cap_A c (damp_A c n1))"
    by (auto simp: step_node_A_def bind_eq_Some_conv)
  then show ?thesis
    using clamp_range [OF assms(2)] by (simp add: integrate_def cap_A_def)
qed

lemma step_A_total_frame:
  "\<exists>st' k'. step_A c rnd dt st k = Some (st', k') \<and> mouse_A st' = mouse_A st
      \<and> lastT_A st' = lastT_A st
      \<and> map cx (trees st') = map cx (trees st) \<and> map cy (trees st') = map cy (trees st)
      \<and> map scale (trees st') = map scale (trees st)
      \<and> map (\<lambda>t. map ax (nodes t)) (trees st') = map (\<lambda>t. map ax (nodes t)) (trees st)
      \<and> map (\<lambda>t. map ay (nodes t)) (trees st') = map (\<lambda>t. map ay (nodes t)) (trees st)"
proof -
  obtain ts1 k1 where "step_trees_A c rnd dt (mouse_A st) (trees st) k = Some (ts1, k1)"
    "map cx ts1 = map cx (trees st)" "map cy ts1 = map cy (trees st)"
    "map scale ts1 = map scale (trees st)"
    "map (\<lambda>t. map ax (nodes t)) ts1 = map (\<lambda>t. map ax (nodes t)) (trees st)"
    "map (\<lambda>t. map ay (nodes t)) ts1 = map (\<lambda>t. map ay (nodes t)) (trees st)"
    using step_trees_A_frame [of c rnd dt "mouse_A st" "trees st" k] by blast
  then show ?thesis by (simp add: step_A_def)
qed

lemma step_node_A_order:
  "\<exists>n1 k1 n'.
      (if active m then repel_A c rnd m (spring_A c n) k else Some (spring_A c n, k)) = Some (n1, k1)
      \<and> step_node_A c rnd dt m n k = Some (n', k1)
      \<and> vx n' = clamp (vx n1 * damping c) (- maxSpeed c) (maxSpeed c)
      \<and> vy n' = clamp (vy n1 * damping c) (- maxSpeed c) (maxSpeed c)
      \<and> x n' = x n + vx n' * (dt * 60)
      \<and> y n' = y n + vy n' * (dt * 60)"
proof -
  obtain n1 k1 where r: "repel_A c rnd m (spring_A c n) k = Some (n1, k1)"
    "x n1 = x (spring_A c n)" "y n1 = y (spring_A c n)"
    using repel_A_frame [of c rnd m "spring_A c n" k] by blast
  show ?thesis
  proof (cases "active m")
    case True
    with r show ?thesis
      by (simp add: step_node_A_def integrate_def cap_A_def damp_A_def spring_A_def)
  next
    case False
    then show ?thesis
      by (simp add: step_node_A_def integrate_def cap_A_def damp_A_def spring_A_def)
  qed
qed

lemma step_node_B_frame:
  "\<exists>n'. step_node_B c dt m n = Some n' \<and> ax n' = ax n \<and> ay n' = ay n"
proof -
  obtain n1 where "repel_B c m (spring_B c n) = Some n1" "ax n1 = ax (spring_B c n)"
    "ay n1 = ay (spring_B c n)"
    using repel_B_frame [of c m "spring_B c n"] by blast
  then show ?thesis
    by (simp add: step_node_B_def integrate_def damp_B_def spring_B_def)
qed

lemma step_nodes_B_frame:
  "\<exists>ns'. step_nodes_B c dt m ns = Some ns' \<and> map ax ns' = map ax ns \<and> map ay ns' = map ay ns"
proof (induction ns)
  case Nil
  show ?case by simp
next
  case (Cons n ns)
  obtain n1 where a: "step_node_B c dt m n = Some n1" "ax n1 = ax n" "ay n1 = ay n"
    using step_node_B_frame [of c dt m n] by blast
  from Cons.IH obtain ns1 where b: "step_nodes_B c dt m ns = Some ns1"
    "map ax ns1 = map ax ns" "map ay ns1 = map ay ns"
    by blast
  from a b show ?case by simp
qed

lemma step_B_total_frame:
  "\<exists>st'. step_B c dt st = Some st' \<and> mouse_B st' = mouse_B st \<and> lastT_B st' = lastT_B st
      \<and> dpr st' = dpr st
      \<and> map ax (nodes_B st') = map ax (nodes_B st) \<and> map ay (nodes_B st') = map ay (nodes_B st)"
proof -
  obtain ns1 where "step_nodes_B c dt (mouse_B st) (nodes_B st) = Some ns1"
    "map ax ns1 = map ax (nodes_B st)" "map ay ns1 = map ay (nodes_B st)"
    using step_nodes_B_frame [of c dt "mouse_B st" "nodes_B st"] by blast
  then show ?thesis by (simp add: step_B_def)
qed

lemma step_node_B_far:
  "repelRadius c \<le> sqrt ((x n - mouse_x m) * (x n - mouse_x m) + (y n - mouse_y m) * (y n - mouse_y m))
   \<Longrightarrow> step_node_B c dt m n = Some (integrate dt (damp_B c (spring_B c n)))"
  using repel_B_far [of c "spring_B c n" m]
  by (simp add: step_node_B_def spring_B_def Let_def)

lemma step_node_B_ignores_active:
  "step_node_B c dt (m\<lparr>active := b\<rparr>) n = step_node_B c dt m n"
  by (simp add: step_node_B_def repel_B_def)

lemma far_by_x: 
  assumes "0 \<le> r" and "r \<le> a"
  shows "r \<le> sqrt (a * a + b * b)"
proof -
  have "r * r \<le> a * a" using assms by (simp add: mult_mono)
  also have "\<dots> \<le> a * a + b * b" by simp
  finally have "r\<^sup>2 \<le> a * a + b * b" by (simp add: power2_eq_square)
  then show ?thesis by (rule real_le_rsqrt)
qed

lemma far_by_y:
  assumes "0 \<le> r" and "r \<le> b"
  shows "r \<le> sqrt (a * a + b * b)"
  using far_by_x [OF assms, of a] by (simp add: add.commute)

lemma ex_step_node_A:
  "step_node_A CFG_A (\<lambda>_. 1 / 2) (1 / 60) \<lparr>mouse_x = 0, mouse_y = 0, active = True\<rparr>
     \<lparr>ax = 1, ay = 0, x = 1, y = 0, vx = 0, vy = 0\<rparr> 0
   = Some (\<lparr>ax = 1, ay = 0, x = 8, y = 0, vx = 7, vy = 0\<rparr>, 2)"
  by (simp add: step_node_A_def repel_A_def force_A_def js_div_def or_one_def Let_def
      spring_A_def damp_A_def cap_A_def clamp_def integrate_def CFG_A_def)

lemma step_node_A_far:
  assumes "hoverRadius c \<le> sqrt ((x n - mouse_x m) * (x n - mouse_x m)
      + (y n - mouse_y m) * (y n - mouse_y m))"
  shows "step_node_A c rnd dt m n k = Some (integrate dt (cap_A c (damp_A c (spring_A c n))), k)"
  using repel_A_far [of c "spring_A c n" m rnd k] assms
  by (simp add: step_node_A_def spring_A_def)

lemma force_A_decreasing:
  assumes "0 \<le> d1" "d1 < d2" "d2 < hoverRadius c" "0 < repelStrength c"
  shows "\<exists>f1 f2. force_A c d1 = Some f1 \<and> force_A c d2 = Some f2 \<and> f2 < f1"
proof -
  let ?R = "hoverRadius c"
  have R: "0 < ?R" using assms by linarith
  have a: "d1 / ?R < d2 / ?R" using assms(2) R by (simp add: divide_strict_right_mono)
  have b: "d2 / ?R < 1" using assms(3) R by simp
  have "0 < 1 - d2 / ?R" "1 - d2 / ?R < 1 - d1 / ?R" using a b by simp_all
  then have "(1 - d2 / ?R) * (1 - d2 / ?R) < (1 - d1 / ?R) * (1 - d1 / ?R)"
    by (simp add: mult_strict_mono)
  then have "(1 - d2 / ?R) * (1 - d2 / ?R) * repelStrength c
      < (1 - d1 / ?R) * (1 - d1 / ?R) * repelStrength c"
    using assms(4) by simp
  then show ?thesis using R by (simp add: force_A_Some)
qed

lemma force_B_decreasing:
  assumes "0 \<le> d1" "d1 < d2" "d2 < repelRadius c" "0 < repelStrength_B c"
  shows "\<exists>f1 f2. force_B c d1 = Some f1 \<and> force_B c d2 = Some f2 \<and> f2 < f1"
proof -
  let ?R = "repelRadius c"
  have R: "0 < ?R" using assms by linarith
  have "d1 / ?R < d2 / ?R" using assms(2) R by (simp add: divide_strict_right_mono)
  then have "(1 - d2 / ?R) * repelStrength_B c < (1 - d1 / ?R) * repelStrength_B c"
    using assms(4) by simp
  then show ?thesis using R by (simp add: force_B_Some)
qed

lemma step_node_A_rest:
  assumes "\<not> active m" "at_rest n" "0 \<le> maxSpeed c"
  shows "step_node_A c rnd dt m n k = Some (n, k)"
proof -
  have "integrate dt (cap_A c (damp_A c (spring_A c n))) = n"
    using assms(2,3)
    by (cases n) (simp add: at_rest_def integrate_def cap_A_def damp_A_def spring_A_def clamp_def)
  then show ?thesis using assms(1) by (simp add: step_node_A_inactive)
qed

lemma step_nodes_A_rest:
  assumes "\<not> active m" "0 \<le> maxSpeed c"
  shows "\<forall>n\<in>set ns. at_rest n \<Longrightarrow> step_nodes_A c rnd dt m ns k = Some (ns, k)"
  by (induction ns) (simp_all add: step_node_A_rest [OF assms(1) _ assms(2)])

lemma step_trees_A_rest:
  assumes "\<not> active m" "0 \<le> maxSpeed c"
  shows "\<forall>t\<in>set ts. \<forall>n\<in>set (nodes t). at_rest n
    \<Longrightarrow> step_trees_A c rnd dt m ts k = Some (ts, k)"
  by (induction ts) (simp_all add: step_nodes_A_rest [OF assms])

lemma run_A_rest:
  assumes "0 \<le> maxSpeed c"
  shows "\<not> active (mouse_A st) \<Longrightarrow> \<forall>t\<in>set (trees st). \<forall>n\<in>set (nodes t). at_rest n
    \<Longrightarrow> \<exists>st'. run_A c rnd ts st k = Some (st', k) \<and> trees st' = trees st"
proof (induction ts arbitrary: st)
  case Nil
  show ?case by simp
next
  case (Cons t ts)
  have l: "loop_A c rnd t st k = Some (st\<lparr>lastT_A := t\<rparr>, k)"
    using Cons.prems step_trees_A_rest [OF _ assms, of "mouse_A st" "trees st"]
    by (simp add: loop_A_def step_A_def)
  have "\<exists>st'. run_A c rnd ts (st\<lparr>lastT_A := t\<rparr>) k = Some (st', k)
      \<and> trees st' = trees (st\<lparr>lastT_A := t\<rparr>)"
    by (rule Cons.IH) (use Cons.prems in simp_all)
  with l show ?case by simp
qed

lemma step_node_B_rest:
  assumes "repelRadius c \<le> sqrt ((x n - mouse_x m) * (x n - mouse_x m)
      + (y n - mouse_y m) * (y n - mouse_y m))" "at_rest n"
  shows "step_node_B c dt m n = Some n"
proof -
  have "integrate dt (damp_B c (spring_B c n)) = n"
    using assms(2)
    by (cases n) (simp add: at_rest_def integrate_def damp_B_def spring_B_def)
  then show ?thesis using assms(1) by (simp add: step_node_B_far)
qed

lemma step_nodes_B_rest:
  "\<forall>n\<in>set ns. at_rest n \<and> repelRadius c \<le> sqrt ((x n - mouse_x m) * (x n - mouse_x m)
      + (y n - mouse_y m) * (y n - mouse_y m))
   \<Longrightarrow> step_nodes_B c dt m ns = Some ns"
  by (induction ns) (simp_all add: step_node_B_rest)

lemma run_B_rest:
  "\<forall>n\<in>set (nodes_B st). at_rest n \<and> repelRadius c \<le> sqrt ((x n - mouse_x (mouse_B st)) * (x n - mouse_x (mouse_B st))
      + (y n - mouse_y (mouse_B st)) * (y n - mouse_y (mouse_B st)))
   \<Longrightarrow> \<exists>st'. run_B c ts st = Some st' \<and> nodes_B st' = nodes_B st"
proof (induction ts arbitrary: st)
  case Nil
  show ?case by simp
next
  case (Cons t ts)
  have l: "loop_B c t st = Some (st\<lparr>lastT_B := t\<rparr>)"
    using Cons.prems step_nodes_B_rest [of "nodes_B st" c "mouse_B st"]
    by (simp add: loop_B_def step_B_def)
  have "\<exists>st'. run_B c ts (st\<lparr>lastT_B := t\<rparr>) = Some st'
      \<and> nodes_B st' = nodes_B (st\<lparr>lastT_B := t\<rparr>)"
    by (rule Cons.IH) (use Cons.prems in simp)
  with l show ?case by simp
qed

lemma step_node_A_inactive_law:
  assumes "\<not> active m"
  shows "\<exists>n'. step_node_A c rnd dt m n k = Some (n', k)
      \<and> vx n' = clamp ((vx n + (ax n - x n) * spring c) * damping c) (- maxSpeed c) (maxSpeed c)
      \<and> vy n' = clamp ((vy n + (ay n - y n) * spring c) * damping c) (- maxSpeed c) (maxSpeed c)
      \<and> x n' = x n + vx n' * (dt * 60) \<and> y n' = y n + vy n' * (dt * 60)"
  using assms
  by (simp add: step_node_A_inactive integrate_def cap_A_def damp_A_def spring_A_def)

lemma step_node_B_far_law:
  assumes "repelRadius c \<le> sqrt ((x n - mouse_x m) * (x n - mouse_x m)
      + (y n - mouse_y m) * (y n - mouse_y m))"
  shows "\<exists>n'. step_node_B c dt m n = Some n'
      \<and> vx n' = (vx n + (ax n - x n) * returnStrength c) * damping_B c
      \<and> vy n' = (vy n + (ay n - y n) * returnStrength c) * damping_B c
      \<and> x n' = x n + vx n' * (dt * 60) \<and> y n' = y n + vy n' * (dt * 60)"
  using assms
  by (simp add: step_node_B_far integrate_def damp_B_def spring_B_def Let_def)

lemma step_node_B_sentinel:
  assumes "- 9889 \<le> x n \<or> - 9889 \<le> y n" "mouse_x m = - 9999" "mouse_y m = - 9999"
  shows "step_node_B CFG_B dt m n = Some (integrate dt (damp_B CFG_B (spring_B CFG_B n)))"
proof (rule step_node_B_far)
  from assms(1) show "repelRadius CFG_B \<le> sqrt ((x n - mouse_x m) * (x n - mouse_x m)
        + (y n - mouse_y m) * (y n - mouse_y m))"
  proof
    assume "- 9889 \<le> x n"
    then show ?thesis
      using far_by_x [of 110 "x n + 9999" "y n + 9999"] assms(2,3) by (simp add: CFG_B_def)
  next
    assume "- 9889 \<le> y n"
    then show ?thesis
      using far_by_y [of 110 "y n + 9999" "x n + 9999"] assms(2,3) by (simp add: CFG_B_def)
  qed
qed

lemma repel_B_on_pointer:
  assumes "sqrt ((x n - mouse_x m) * (x n - mouse_x m) + (y n - mouse_y m) * (y n - mouse_y m)) = 0"
  shows "repel_B c m n = Some n"
proof (cases "0 < repelRadius c")
  case True
  have z: "x n - mouse_x m = 0" "y n - mouse_y m = 0"
    using assms by (simp_all add: real_sqrt_eq_zero_cancel_iff sum_squares_eq_zero_iff)
  from repel_B_near [OF assms, of c] True z show ?thesis by simp
next
  case False
  then show ?thesis using assms by (simp add: repel_B_far)
qed

lemma repel_B_pushes:
  assumes d: "sqrt ((x n - mouse_x m) * (x n - mouse_x m) + (y n - mouse_y m) * (y n - mouse_y m)) = d"
    and r: "0 < d" "d < repelRadius CFG_B"
    and e: "repel_B CFG_B m n = Some n1"
  shows "vx n1 \<noteq> vx n \<or> vy n1 \<noteq> vy n"
proof (rule ccontr)
  assume "\<not> (vx n1 \<noteq> vx n \<or> vy n1 \<noteq> vy n)"
  then have s: "vx n1 = vx n" "vy n1 = vy n" by simp_all
  define F where "F = (1 - d / repelRadius CFG_B) * repelStrength_B CFG_B"
  have f: "0 < F"
    using r unfolding F_def by (simp add: CFG_B_def)
  have o: "or_one d = d" using r(1) by (simp add: or_one_def)
  from repel_B_near [OF d r(2)] e have
    "n1 = n\<lparr>vx := vx n + (x n - mouse_x m) / d * F * 18,
             vy := vy n + (y n - mouse_y m) / d * F * 18\<rparr>"
    unfolding F_def o by simp
  then have "vx n1 = vx n + (x n - mouse_x m) / d * F * 18"
    "vy n1 = vy n + (y n - mouse_y m) / d * F * 18"
    by simp_all
  with s have "(x n - mouse_x m) / d * F * 18 = 0" "(y n - mouse_y m) / d * F * 18 = 0"
    by simp_all
  with f r(1) have "x n - mouse_x m = 0" "y n - mouse_y m = 0"
    by simp_all
  with d have "d = 0" by simp
  with r(1) show False by simp
qed

lemma step_node_B_silent_iff:
  "step_node_B CFG_B dt m n = Some (integrate dt (damp_B CFG_B (spring_B CFG_B n)))
   \<longleftrightarrow> (repelRadius CFG_B \<le> sqrt ((x n - mouse_x m) * (x n - mouse_x m)
          + (y n - mouse_y m) * (y n - mouse_y m))
        \<or> sqrt ((x n - mouse_x m) * (x n - mouse_x m)
          + (y n - mouse_y m) * (y n - mouse_y m)) = 0)"
proof -
  let ?d = "sqrt ((x n - mouse_x m) * (x n - mouse_x m) + (y n - mouse_y m) * (y n - mouse_y m))"
  let ?s = "spring_B CFG_B n"
  have ds: "sqrt ((x ?s - mouse_x m) * (x ?s - mouse_x m)
      + (y ?s - mouse_y m) * (y ?s - mouse_y m)) = ?d"
    by (simp add: spring_B_def Let_def)
  show ?thesis
  proof
    assume a: "step_node_B CFG_B dt m n = Some (integrate dt (damp_B CFG_B ?s))"
    show "repelRadius CFG_B \<le> ?d \<or> ?d = 0"
    proof (rule ccontr)
      assume "\<not> (repelRadius CFG_B \<le> ?d \<or> ?d = 0)"
      then have "\<not> repelRadius CFG_B \<le> ?d" "?d \<noteq> 0" by blast+
      moreover have "0 \<le> ?d" by (rule dist_nonneg)
      ultimately have r: "0 < ?d" "?d < repelRadius CFG_B" by linarith+
      from a obtain n1 where n1: "repel_B CFG_B m ?s = Some n1"
        and i: "integrate dt (damp_B CFG_B n1) = integrate dt (damp_B CFG_B ?s)"
        by (auto simp: step_node_B_def bind_eq_Some_conv)
      from i have "vx (integrate dt (damp_B CFG_B n1)) = vx (integrate dt (damp_B CFG_B ?s))"
        "vy (integrate dt (damp_B CFG_B n1)) = vy (integrate dt (damp_B CFG_B ?s))"
        by simp_all
      then have "vx n1 = vx ?s" "vy n1 = vy ?s"
        by (simp_all add: integrate_def damp_B_def CFG_B_def)
      with repel_B_pushes [OF ds r n1] show False by simp
    qed
  next
    assume "repelRadius CFG_B \<le> ?d \<or> ?d = 0"
    then show "step_node_B CFG_B dt m n = Some (integrate dt (damp_B CFG_B ?s))"
    proof
      assume "repelRadius CFG_B \<le> ?d"
      then show ?thesis by (rule step_node_B_far)
    next
      assume "?d = 0"
      with ds have "repel_B CFG_B m ?s = Some ?s"
        by (intro repel_B_on_pointer) simp
      then show ?thesis by (simp add: step_node_B_def)
    qed
  qed
qed


lemma step_node_B_on_pointer:
  assumes "sqrt ((x n - mouse_x m) * (x n - mouse_x m) + (y n - mouse_y m) * (y n - mouse_y m)) = 0"
  shows "step_node_B c dt m n = Some (integrate dt (damp_B c (spring_B c n)))"
proof -
  have "sqrt ((x (spring_B c n) - mouse_x m) * (x (spring_B c n) - mouse_x m)
      + (y (spring_B c n) - mouse_y m) * (y (spring_B c n) - mouse_y m)) = 0"
    using assms by (simp add: spring_B_def Let_def)
  then have "repel_B c m (spring_B c n) = Some (spring_B c n)"
    by (rule repel_B_on_pointer)
  then show ?thesis by (simp add: step_node_B_def)
qed

section \<open>The claims about the integrator\<close>

subsection \<open>C1: subdividing the time\<close>

text \<open>
  Claim C1 as stated: with the pointer inactive, the position of a node after a total
  time \<open>T\<close> does not depend on how \<open>T\<close> is cut into steps below the clamp of 33 ms. A
  node at 0 with its anchor at 10 and no velocity, run for 30 ms: one frame of 30 ms
  leaves it at 0.8514 in variant A and 0.9288 in variant B; two frames of 15 ms leave
  it at 1.199379951 and 1.306617264. The spring and the damping act once per frame,
  whatever its length.
\<close>

theorem subdivision_changes_position_counterexample:
  "map_option (\<lambda>(s, k). map (\<lambda>t. map x (nodes t)) (trees s))
     (run_A CFG_A (\<lambda>_. 0) [30]
        \<lparr>trees = [\<lparr>cx = 10, cy = 0, scale = 26,
                    nodes = [\<lparr>ax = 10, ay = 0, x = 0, y = 0, vx = 0, vy = 0\<rparr>]\<rparr>],
         mouse_A = \<lparr>mouse_x = - 9999, mouse_y = - 9999, active = False\<rparr>, lastT_A = 0\<rparr> 0)
     = Some [ [4257 / 5000] ]
   \<and> map_option (\<lambda>(s, k). map (\<lambda>t. map x (nodes t)) (trees s))
     (run_A CFG_A (\<lambda>_. 0) [15, 30]
        \<lparr>trees = [\<lparr>cx = 10, cy = 0, scale = 26,
                    nodes = [\<lparr>ax = 10, ay = 0, x = 0, y = 0, vx = 0, vy = 0\<rparr>]\<rparr>],
         mouse_A = \<lparr>mouse_x = - 9999, mouse_y = - 9999, active = False\<rparr>, lastT_A = 0\<rparr> 0)
     = Some [ [1199379951 / 1000000000] ]
   \<and> map_option (\<lambda>s. map x (nodes_B s))
     (run_B CFG_B [30]
        \<lparr>nodes_B = [\<lparr>ax = 10, ay = 0, x = 0, y = 0, vx = 0, vy = 0\<rparr>],
         mouse_B = \<lparr>mouse_x = - 9999, mouse_y = - 9999, active = False\<rparr>, lastT_B = 0,
         dpr = 1\<rparr>)
     = Some [1161 / 1250]
   \<and> map_option (\<lambda>s. map x (nodes_B s))
     (run_B CFG_B [15, 30]
        \<lparr>nodes_B = [\<lparr>ax = 10, ay = 0, x = 0, y = 0, vx = 0, vy = 0\<rparr>],
         mouse_B = \<lparr>mouse_x = - 9999, mouse_y = - 9999, active = False\<rparr>, lastT_B = 0,
         dpr = 1\<rparr>)
     = Some [81663579 / 62500000]"
proof -
  let ?m = "\<lparr>mouse_x = - 9999, mouse_y = - 9999, active = False\<rparr>"
  have A: "step_node_A CFG_A rnd dt ?m n k
      = Some (integrate dt (cap_A CFG_A (damp_A CFG_A (spring_A CFG_A n))), k)" for rnd dt n k
    by (simp add: step_node_A_inactive)
  have B: "0 \<le> x n \<Longrightarrow>
      step_node_B CFG_B dt ?m n = Some (integrate dt (damp_B CFG_B (spring_B CFG_B n)))" for dt n
    by (rule step_node_B_sentinel) simp_all
  have a1: "step_node_A CFG_A (\<lambda>_. 0) (3 / 100) ?m
      \<lparr>ax = 10, ay = 0, x = 0, y = 0, vx = 0, vy = 0\<rparr> 0
      = Some (\<lparr>ax = 10, ay = 0, x = 4257 / 5000, y = 0, vx = 473 / 1000, vy = 0\<rparr>, 0)"
    by (simp add: A) (simp add: integrate_def cap_A_def damp_A_def spring_A_def clamp_def CFG_A_def)
  have a2: "step_node_A CFG_A (\<lambda>_. 0) (3 / 200) ?m
      \<lparr>ax = 10, ay = 0, x = 0, y = 0, vx = 0, vy = 0\<rparr> 0
      = Some (\<lparr>ax = 10, ay = 0, x = 4257 / 10000, y = 0, vx = 473 / 1000, vy = 0\<rparr>, 0)"
    by (simp add: A) (simp add: integrate_def cap_A_def damp_A_def spring_A_def clamp_def CFG_A_def)
  have a3: "step_node_A CFG_A (\<lambda>_. 0) (3 / 200) ?m
      \<lparr>ax = 10, ay = 0, x = 4257 / 10000, y = 0, vx = 473 / 1000, vy = 0\<rparr> 0
      = Some (\<lparr>ax = 10, ay = 0, x = 1199379951 / 1000000000, y = 0,
               vx = 85964439 / 100000000, vy = 0\<rparr>, 0)"
    by (simp add: A) (simp add: integrate_def cap_A_def damp_A_def spring_A_def clamp_def CFG_A_def)
  have b1: "step_node_B CFG_B (3 / 100) ?m \<lparr>ax = 10, ay = 0, x = 0, y = 0, vx = 0, vy = 0\<rparr>
      = Some \<lparr>ax = 10, ay = 0, x = 1161 / 1250, y = 0, vx = 129 / 250, vy = 0\<rparr>"
    by (simp add: B) (simp add: integrate_def damp_B_def spring_B_def CFG_B_def)
  have b2: "step_node_B CFG_B (3 / 200) ?m \<lparr>ax = 10, ay = 0, x = 0, y = 0, vx = 0, vy = 0\<rparr>
      = Some \<lparr>ax = 10, ay = 0, x = 1161 / 2500, y = 0, vx = 129 / 250, vy = 0\<rparr>"
    by (simp add: B) (simp add: integrate_def damp_B_def spring_B_def CFG_B_def)
  have b3: "step_node_B CFG_B (3 / 200) ?m
      \<lparr>ax = 10, ay = 0, x = 1161 / 2500, y = 0, vx = 129 / 250, vy = 0\<rparr>
      = Some \<lparr>ax = 10, ay = 0, x = 81663579 / 62500000, y = 0,
               vx = 5848731 / 6250000, vy = 0\<rparr>"
    by (simp add: B) (simp add: integrate_def damp_B_def spring_B_def CFG_B_def)
  show ?thesis
    by (simp add: loop_A_def step_A_def loop_B_def step_B_def a1 a2 a3 b1 b2 b3)
qed

text \<open>
  Claim C1, amended. With the pointer inactive (variant A) or no nearer than
  \<open>repelRadius\<close> (variant B), the velocity after a tick does not depend on \<open>dt\<close>: it is
  the old velocity plus the spring, damped (and clamped in variant A); and the tick
  moves the node by exactly that velocity times \<open>dt * 60\<close>, so the displacement of one
  tick is proportional to \<open>dt\<close>. The position after a total time is the same for every
  sequence of frames when every node starts at rest on its anchor: the nodes then stay
  as they are.
\<close>

theorem tick_displacement_law:
  "(\<not> active m \<longrightarrow>
      (\<exists>n'. step_node_A cA rnd dt m n k = Some (n', k)
        \<and> vx n' = clamp ((vx n + (ax n - x n) * spring cA) * damping cA)
                     (- maxSpeed cA) (maxSpeed cA)
        \<and> vy n' = clamp ((vy n + (ay n - y n) * spring cA) * damping cA)
                     (- maxSpeed cA) (maxSpeed cA)
        \<and> x n' = x n + vx n' * (dt * 60) \<and> y n' = y n + vy n' * (dt * 60)))
   \<and> (repelRadius cB \<le> sqrt ((x n - mouse_x m) * (x n - mouse_x m)
          + (y n - mouse_y m) * (y n - mouse_y m)) \<longrightarrow>
      (\<exists>n'. step_node_B cB dt m n = Some n'
        \<and> vx n' = (vx n + (ax n - x n) * returnStrength cB) * damping_B cB
        \<and> vy n' = (vy n + (ay n - y n) * returnStrength cB) * damping_B cB
        \<and> x n' = x n + vx n' * (dt * 60) \<and> y n' = y n + vy n' * (dt * 60)))
   \<and> (0 \<le> maxSpeed cA \<and> \<not> active (mouse_A st)
        \<and> (\<forall>t\<in>set (trees st). \<forall>n\<in>set (nodes t). at_rest n) \<longrightarrow>
      (\<exists>st'. run_A cA rnd ts st k = Some (st', k) \<and> trees st' = trees st))
   \<and> ((\<forall>n\<in>set (nodes_B sb). at_rest n
          \<and> repelRadius cB \<le> sqrt ((x n - mouse_x (mouse_B sb)) * (x n - mouse_x (mouse_B sb))
              + (y n - mouse_y (mouse_B sb)) * (y n - mouse_y (mouse_B sb)))) \<longrightarrow>
      (\<exists>sb'. run_B cB ts sb = Some sb' \<and> nodes_B sb' = nodes_B sb))"
  using step_node_A_inactive_law [of m cA rnd dt n k] step_node_B_far_law [of cB n m dt]
    run_A_rest [of cA st rnd ts k] run_B_rest [of sb cB ts]
  by blast

theorem tick_displacement_law_witness:
  "\<not> active \<lparr>mouse_x = - 9999, mouse_y = - 9999, active = False\<rparr>
   \<and> (\<exists>n'. step_node_A CFG_A (\<lambda>_. 0) (3 / 100)
          \<lparr>mouse_x = - 9999, mouse_y = - 9999, active = False\<rparr>
          \<lparr>ax = 10, ay = 0, x = 0, y = 0, vx = 0, vy = 0\<rparr> 0 = Some (n', 0)
        \<and> vx n' = 473 / 1000 \<and> x n' = 473 / 1000 * (3 / 100 * 60))
   \<and> repelRadius CFG_B \<le> sqrt ((0 - - 9999) * (0 - - 9999) + (0 - - 9999) * (0 - - 9999))
   \<and> (\<exists>n'. step_node_B CFG_B (3 / 100)
          \<lparr>mouse_x = - 9999, mouse_y = - 9999, active = False\<rparr>
          \<lparr>ax = 10, ay = 0, x = 0, y = 0, vx = 0, vy = 0\<rparr> = Some n'
        \<and> vx n' = 129 / 250 \<and> x n' = 129 / 250 * (3 / 100 * 60))
   \<and> at_rest \<lparr>ax = 5, ay = 0, x = 5, y = 0, vx = 0, vy = 0\<rparr>
   \<and> (\<exists>st'. run_A CFG_A (\<lambda>_. 0) [15, 30]
          \<lparr>trees = [\<lparr>cx = 5, cy = 0, scale = 26,
                      nodes = [\<lparr>ax = 5, ay = 0, x = 5, y = 0, vx = 0, vy = 0\<rparr>]\<rparr>],
           mouse_A = \<lparr>mouse_x = - 9999, mouse_y = - 9999, active = False\<rparr>,
           lastT_A = 0\<rparr> 0 = Some (st', 0)
        \<and> trees st' = [\<lparr>cx = 5, cy = 0, scale = 26,
                      nodes = [\<lparr>ax = 5, ay = 0, x = 5, y = 0, vx = 0, vy = 0\<rparr>]\<rparr>])
   \<and> (\<exists>sb'. run_B CFG_B [15, 30]
          \<lparr>nodes_B = [\<lparr>ax = 5, ay = 0, x = 5, y = 0, vx = 0, vy = 0\<rparr>],
           mouse_B = \<lparr>mouse_x = - 9999, mouse_y = - 9999, active = False\<rparr>,
           lastT_B = 0, dpr = 1\<rparr> = Some sb'
        \<and> nodes_B sb' = [\<lparr>ax = 5, ay = 0, x = 5, y = 0, vx = 0, vy = 0\<rparr>])"
proof -
  let ?m = "\<lparr>mouse_x = - 9999, mouse_y = - 9999, active = False\<rparr>"
  let ?n = "\<lparr>ax = 10, ay = 0, x = 0, y = 0, vx = 0, vy = 0\<rparr>"
  let ?r = "\<lparr>ax = 5, ay = 0, x = 5, y = 0, vx = 0, vy = 0\<rparr>"
  let ?st = "\<lparr>trees = [\<lparr>cx = 5, cy = 0, scale = 26, nodes = [?r]\<rparr>], mouse_A = ?m,
           lastT_A = 0\<rparr>"
  let ?sb = "\<lparr>nodes_B = [?r], mouse_B = ?m, lastT_B = 0, dpr = 1\<rparr>"
  note T = tick_displacement_law [of ?m CFG_A "\<lambda>_. 0" "3 / 100" ?n 0 CFG_B ?st "[15, 30]" ?sb]
  have h1: "\<not> active ?m" by simp
  have h2: "repelRadius CFG_B \<le> sqrt ((x ?n - mouse_x ?m) * (x ?n - mouse_x ?m)
          + (y ?n - mouse_y ?m) * (y ?n - mouse_y ?m))"
    using far_by_x [of 110 9999 9999] by (simp add: CFG_B_def)
  have r: "at_rest ?r" by (simp add: at_rest_def)
  have h3: "0 \<le> maxSpeed CFG_A \<and> \<not> active (mouse_A ?st)
        \<and> (\<forall>t\<in>set (trees ?st). \<forall>n\<in>set (nodes t). at_rest n)"
    using r by (simp add: CFG_A_def)
  have h4: "\<forall>n\<in>set (nodes_B ?sb). at_rest n
          \<and> repelRadius CFG_B \<le> sqrt ((x n - mouse_x (mouse_B ?sb)) * (x n - mouse_x (mouse_B ?sb))
              + (y n - mouse_y (mouse_B ?sb)) * (y n - mouse_y (mouse_B ?sb)))"
    using r far_by_x [of 110 10004 9999] by (simp add: CFG_B_def)
  obtain n1 where c1: "step_node_A CFG_A (\<lambda>_. 0) (3 / 100) ?m ?n 0 = Some (n1, 0)"
    "vx n1 = clamp ((vx ?n + (ax ?n - x ?n) * spring CFG_A) * damping CFG_A)
                     (- maxSpeed CFG_A) (maxSpeed CFG_A)"
    "x n1 = x ?n + vx n1 * (3 / 100 * 60)"
    using T [THEN conjunct1, THEN mp, OF h1] by blast
  have v1: "vx n1 = 473 / 1000"
    using c1(2) by (simp add: clamp_def CFG_A_def)
  obtain n2 where c2: "step_node_B CFG_B (3 / 100) ?m ?n = Some n2"
    "vx n2 = (vx ?n + (ax ?n - x ?n) * returnStrength CFG_B) * damping_B CFG_B"
    "x n2 = x ?n + vx n2 * (3 / 100 * 60)"
    using T [THEN conjunct2, THEN conjunct1, THEN mp, OF h2] by blast
  have v2: "vx n2 = 129 / 250"
    using c2(2) by (simp add: CFG_B_def)
  have c3: "\<exists>st'. run_A CFG_A (\<lambda>_. 0) [15, 30] ?st 0 = Some (st', 0) \<and> trees st' = trees ?st"
    using T [THEN conjunct2, THEN conjunct2, THEN conjunct1, THEN mp, OF h3] .
  have c4: "\<exists>sb'. run_B CFG_B [15, 30] ?sb = Some sb' \<and> nodes_B sb' = nodes_B ?sb"
    using T [THEN conjunct2, THEN conjunct2, THEN conjunct2, THEN mp, OF h4] .
  have g1: "\<exists>n'. step_node_A CFG_A (\<lambda>_. 0) (3 / 100) ?m ?n 0 = Some (n', 0)
        \<and> vx n' = 473 / 1000 \<and> x n' = 473 / 1000 * (3 / 100 * 60)"
    using c1 v1 by simp
  have g2: "\<exists>n'. step_node_B CFG_B (3 / 100) ?m ?n = Some n'
        \<and> vx n' = 129 / 250 \<and> x n' = 129 / 250 * (3 / 100 * 60)"
    using c2 v2 by simp
  have g3: "repelRadius CFG_B \<le> sqrt ((0 - - 9999) * (0 - - 9999) + (0 - - 9999) * (0 - - 9999))"
    using h2 by simp
  from c3 have g4: "\<exists>st'. run_A CFG_A (\<lambda>_. 0) [15, 30] ?st 0 = Some (st', 0)
      \<and> trees st' = [\<lparr>cx = 5, cy = 0, scale = 26, nodes = [?r]\<rparr>]"
    by simp
  from c4 have g5: "\<exists>sb'. run_B CFG_B [15, 30] ?sb = Some sb' \<and> nodes_B sb' = [?r]"
    by simp
  from h1 g1 g3 g2 r g4 g5 show ?thesis
    by (intro conjI)
qed

subsection \<open>C2: an inactive pointer\<close>

text \<open>
  Claim C2 as stated, for both variants: with \<open>active = False\<close> the repulsion adds
  nothing to a node's velocity whatever the stored coordinates. It fails in variant B,
  whose \<^verbatim>\<open>step\<close> never reads the flag: with the flag off and the stored pointer one
  unit left of a resting node, the node leaves the tick with velocity 8.4366, where the
  spring and the damping alone give 0.
\<close>

theorem stale_pointer_repels_B_counterexample:
  "\<not> active \<lparr>mouse_x = 0, mouse_y = 0, active = False\<rparr>
   \<and> map_option vx (step_node_B CFG_B (1 / 60) \<lparr>mouse_x = 0, mouse_y = 0, active = False\<rparr>
       \<lparr>ax = 1, ay = 0, x = 1, y = 0, vx = 0, vy = 0\<rparr>) = Some (42183 / 5000)
   \<and> vx (integrate (1 / 60) (damp_B CFG_B (spring_B CFG_B
       \<lparr>ax = 1, ay = 0, x = 1, y = 0, vx = 0, vy = 0\<rparr>))) = 0"
  by (simp add: step_node_B_def repel_B_def force_B_def js_div_def or_one_def Let_def
      spring_B_def damp_B_def integrate_def CFG_B_def)

text \<open>
  Claim C2, amended. Variant A: with \<open>active = False\<close> a tick is the spring, the
  damping, the cap and the integration, whatever the stored coordinates, and draws no
  random number. Variant B: the tick does not depend on the flag. For every
  configuration the repulsion adds nothing when the node is at least \<open>repelRadius\<close>
  away from the stored coordinates or exactly on them (the direction is then zero);
  with the configuration of the source it adds nothing in these two cases only. The
  first case holds for the coordinates (-9999, -9999) that \<^verbatim>\<open>onLeave\<close> stores and
  every node with \<open>x \<ge> -9889\<close> or \<open>y \<ge> -9889\<close>.
\<close>

theorem inactive_pointer_no_repulsion:
  "(\<not> active m \<longrightarrow>
      step_node_A cA rnd dt m n k = Some (integrate dt (cap_A cA (damp_A cA (spring_A cA n))), k))
   \<and> step_node_B cB dt (m\<lparr>active := b\<rparr>) n = step_node_B cB dt m n
   \<and> (repelRadius cB \<le> sqrt ((x n - mouse_x m) * (x n - mouse_x m)
          + (y n - mouse_y m) * (y n - mouse_y m))
        \<or> sqrt ((x n - mouse_x m) * (x n - mouse_x m)
          + (y n - mouse_y m) * (y n - mouse_y m)) = 0 \<longrightarrow>
      step_node_B cB dt m n = Some (integrate dt (damp_B cB (spring_B cB n))))
   \<and> (step_node_B CFG_B dt m n = Some (integrate dt (damp_B CFG_B (spring_B CFG_B n)))
        \<longleftrightarrow> (repelRadius CFG_B \<le> sqrt ((x n - mouse_x m) * (x n - mouse_x m)
                 + (y n - mouse_y m) * (y n - mouse_y m))
             \<or> sqrt ((x n - mouse_x m) * (x n - mouse_x m)
                 + (y n - mouse_y m) * (y n - mouse_y m)) = 0))
   \<and> (- 9889 \<le> x n \<or> - 9889 \<le> y n \<longrightarrow>
      step_node_B CFG_B dt (onLeave m) n = Some (integrate dt (damp_B CFG_B (spring_B CFG_B n))))"
proof -
  have s: "step_node_B CFG_B dt (onLeave m) n = Some (integrate dt (damp_B CFG_B (spring_B CFG_B n)))"
    if h: "- 9889 \<le> x n \<or> - 9889 \<le> y n"
    using h by (rule step_node_B_sentinel) (simp_all add: onLeave_def)
  have q: "step_node_B cB dt m n = Some (integrate dt (damp_B cB (spring_B cB n)))"
    if "repelRadius cB \<le> sqrt ((x n - mouse_x m) * (x n - mouse_x m)
          + (y n - mouse_y m) * (y n - mouse_y m))
        \<or> sqrt ((x n - mouse_x m) * (x n - mouse_x m)
          + (y n - mouse_y m) * (y n - mouse_y m)) = 0"
    using that step_node_B_far [of cB n m dt] step_node_B_on_pointer [of n m cB dt] by blast
  show ?thesis
    using s q step_node_A_inactive [of m cA rnd dt n k] step_node_B_silent_iff [of dt m n]
      step_node_B_ignores_active
    by blast
qed

theorem inactive_pointer_no_repulsion_witness:
  "\<not> active \<lparr>mouse_x = 1, mouse_y = 0, active = False\<rparr>
   \<and> step_node_A CFG_A (\<lambda>_. 1 / 2) (1 / 60) \<lparr>mouse_x = 1, mouse_y = 0, active = False\<rparr>
        \<lparr>ax = 2, ay = 0, x = 1, y = 0, vx = 0, vy = 0\<rparr> 0
      = Some (\<lparr>ax = 2, ay = 0, x = 1 + 473 / 10000, y = 0, vx = 473 / 10000, vy = 0\<rparr>, 0)
   \<and> - 9889 \<le> x \<lparr>ax = 2, ay = 0, x = 1, y = 0, vx = 0, vy = 0\<rparr>
   \<and> step_node_B CFG_B (1 / 60) (onLeave \<lparr>mouse_x = 1, mouse_y = 0, active = True\<rparr>)
        \<lparr>ax = 2, ay = 0, x = 1, y = 0, vx = 0, vy = 0\<rparr>
      = Some \<lparr>ax = 2, ay = 0, x = 1 + 129 / 2500, y = 0, vx = 129 / 2500, vy = 0\<rparr>
   \<and> repelRadius CFG_B \<le> sqrt ((200 - 0) * (200 - 0) + (0 - 0) * (0 - 0))
   \<and> step_node_B CFG_B (1 / 60) \<lparr>mouse_x = 0, mouse_y = 0, active = False\<rparr>
        \<lparr>ax = 200, ay = 0, x = 200, y = 0, vx = 0, vy = 0\<rparr>
      = Some \<lparr>ax = 200, ay = 0, x = 200, y = 0, vx = 0, vy = 0\<rparr>
   \<and> sqrt ((1 - 1) * (1 - 1) + (0 - 0) * (0 - 0)) = (0::real)
   \<and> step_node_B CFG_B (1 / 60) \<lparr>mouse_x = 1, mouse_y = 0, active = False\<rparr>
        \<lparr>ax = 1, ay = 0, x = 1, y = 0, vx = 0, vy = 0\<rparr>
      = Some \<lparr>ax = 1, ay = 0, x = 1, y = 0, vx = 0, vy = 0\<rparr>
   \<and> \<not> repelRadius CFG_B \<le> sqrt ((1 - 0) * (1 - 0) + (0 - 0) * (0 - 0))
   \<and> sqrt ((1 - 0) * (1 - 0) + (0 - 0) * (0 - 0)) \<noteq> (0::real)
   \<and> step_node_B CFG_B (1 / 60) \<lparr>mouse_x = 0, mouse_y = 0, active = False\<rparr>
        \<lparr>ax = 1, ay = 0, x = 1, y = 0, vx = 0, vy = 0\<rparr>
      \<noteq> Some (integrate (1 / 60) (damp_B CFG_B (spring_B CFG_B
          \<lparr>ax = 1, ay = 0, x = 1, y = 0, vx = 0, vy = 0\<rparr>)))"
proof -
  let ?m = "\<lparr>mouse_x = 0, mouse_y = 0, active = False\<rparr>"
  let ?m1 = "\<lparr>mouse_x = 1, mouse_y = 0, active = False\<rparr>"
  let ?n = "\<lparr>ax = 200, ay = 0, x = 200, y = 0, vx = 0, vy = 0\<rparr>"
  let ?n1 = "\<lparr>ax = 1, ay = 0, x = 1, y = 0, vx = 0, vy = 0\<rparr>"
  have a: "\<not> active \<lparr>mouse_x = 1, mouse_y = 0, active = False\<rparr>
   \<and> step_node_A CFG_A (\<lambda>_. 1 / 2) (1 / 60) \<lparr>mouse_x = 1, mouse_y = 0, active = False\<rparr>
        \<lparr>ax = 2, ay = 0, x = 1, y = 0, vx = 0, vy = 0\<rparr> 0
      = Some (\<lparr>ax = 2, ay = 0, x = 1 + 473 / 10000, y = 0, vx = 473 / 10000, vy = 0\<rparr>, 0)
   \<and> - 9889 \<le> x \<lparr>ax = 2, ay = 0, x = 1, y = 0, vx = 0, vy = 0\<rparr>
   \<and> step_node_B CFG_B (1 / 60) (onLeave \<lparr>mouse_x = 1, mouse_y = 0, active = True\<rparr>)
        \<lparr>ax = 2, ay = 0, x = 1, y = 0, vx = 0, vy = 0\<rparr>
      = Some \<lparr>ax = 2, ay = 0, x = 1 + 129 / 2500, y = 0, vx = 129 / 2500, vy = 0\<rparr>"
    using inactive_pointer_no_repulsion [of "\<lparr>mouse_x = 1, mouse_y = 0, active = False\<rparr>"
      CFG_A "\<lambda>_. 1 / 2" "1 / 60" "\<lparr>ax = 2, ay = 0, x = 1, y = 0, vx = 0, vy = 0\<rparr>" 0 CFG_B True]
    by (simp add: onLeave_def integrate_def cap_A_def damp_A_def spring_A_def clamp_def
      damp_B_def spring_B_def CFG_A_def CFG_B_def step_node_B_ignores_active)
  have h: "repelRadius CFG_B \<le> sqrt ((x ?n - mouse_x ?m) * (x ?n - mouse_x ?m)
          + (y ?n - mouse_y ?m) * (y ?n - mouse_y ?m))
        \<or> sqrt ((x ?n - mouse_x ?m) * (x ?n - mouse_x ?m)
          + (y ?n - mouse_y ?m) * (y ?n - mouse_y ?m)) = 0"
    by (simp add: CFG_B_def)
  have "step_node_B CFG_B (1 / 60) ?m ?n
      = Some (integrate (1 / 60) (damp_B CFG_B (spring_B CFG_B ?n)))"
    using inactive_pointer_no_repulsion [of ?m CFG_A "\<lambda>_. 1 / 2" "1 / 60" ?n 0 CFG_B True,
        THEN conjunct2, THEN conjunct2, THEN conjunct1, THEN mp, OF h] .
  then have b: "step_node_B CFG_B (1 / 60) ?m ?n = Some ?n"
    by (simp add: integrate_def damp_B_def spring_B_def)
  have c: "repelRadius CFG_B \<le> sqrt ((200 - 0) * (200 - 0) + (0 - 0) * (0 - 0))"
    by (simp add: CFG_B_def)
  have h0: "repelRadius CFG_B \<le> sqrt ((x ?n1 - mouse_x ?m1) * (x ?n1 - mouse_x ?m1)
          + (y ?n1 - mouse_y ?m1) * (y ?n1 - mouse_y ?m1))
        \<or> sqrt ((x ?n1 - mouse_x ?m1) * (x ?n1 - mouse_x ?m1)
          + (y ?n1 - mouse_y ?m1) * (y ?n1 - mouse_y ?m1)) = 0"
    by simp
  have "step_node_B CFG_B (1 / 60) ?m1 ?n1
      = Some (integrate (1 / 60) (damp_B CFG_B (spring_B CFG_B ?n1)))"
    using inactive_pointer_no_repulsion [of ?m1 CFG_A "\<lambda>_. 1 / 2" "1 / 60" ?n1 0 CFG_B True,
        THEN conjunct2, THEN conjunct2, THEN conjunct1, THEN mp, OF h0] .
  then have d: "step_node_B CFG_B (1 / 60) ?m1 ?n1 = Some ?n1"
    by (simp add: integrate_def damp_B_def spring_B_def)
  have nh: "\<not> (repelRadius CFG_B \<le> sqrt ((x ?n1 - mouse_x ?m) * (x ?n1 - mouse_x ?m)
          + (y ?n1 - mouse_y ?m) * (y ?n1 - mouse_y ?m))
        \<or> sqrt ((x ?n1 - mouse_x ?m) * (x ?n1 - mouse_x ?m)
          + (y ?n1 - mouse_y ?m) * (y ?n1 - mouse_y ?m)) = 0)"
    by (simp add: CFG_B_def)
  have e: "step_node_B CFG_B (1 / 60) ?m ?n1
      \<noteq> Some (integrate (1 / 60) (damp_B CFG_B (spring_B CFG_B ?n1)))"
    using inactive_pointer_no_repulsion [of ?m CFG_A "\<lambda>_. 1 / 2" "1 / 60" ?n1 0 CFG_B True,
        THEN conjunct2, THEN conjunct2, THEN conjunct2, THEN conjunct1] nh
    by blast
  have g: "sqrt ((1 - 1) * (1 - 1) + (0 - 0) * (0 - 0)) = (0::real)"
    "\<not> repelRadius CFG_B \<le> sqrt ((1 - 0) * (1 - 0) + (0 - 0) * (0 - 0))"
    "sqrt ((1 - 0) * (1 - 0) + (0 - 0) * (0 - 0)) \<noteq> (0::real)"
    by (simp_all add: CFG_B_def)
  from a b c d e g show ?thesis by (intro conjI) blast+
qed

subsection \<open>C3: the repulsion force law\<close>

text \<open>
  Claim C3 as stated, for both variants: inside the radius the force is
  \<open>t\<^sup>2 * repelStrength\<close> with \<open>t = 1 - d / R\<close>. Variant B computes \<open>t * repelStrength\<close>:
  at \<open>d = 55\<close>, half its radius, the force is 0.275 and not 0.1375, and a node there
  gains \<open>0.275 * 18\<close> of velocity.
\<close>

theorem linear_force_B_counterexample:
  "force_B CFG_B 55 = Some (11 / 40)
   \<and> (1 - 55 / repelRadius CFG_B)\<^sup>2 * repelStrength_B CFG_B = 11 / 80
   \<and> map_option vx (repel_B CFG_B \<lparr>mouse_x = 0, mouse_y = 0, active = True\<rparr>
       \<lparr>ax = 55, ay = 0, x = 55, y = 0, vx = 0, vy = 0\<rparr>) = Some (11 / 40 * 18)"
proof -
  have "sqrt (3025::real) = 55"
    using real_sqrt_abs [of 55] by simp
  then show ?thesis
    by (simp add: repel_B_def force_B_def js_div_def or_one_def Let_def CFG_B_def
        power2_eq_square)
qed

text \<open>
  Claim C3, amended. For a positive radius \<open>R\<close> the force computed at distance \<open>d\<close> is
  \<open>(1 - d / R)\<^sup>2 * repelStrength\<close> in variant A and \<open>(1 - d / R) * repelStrength\<close> (linear)
  in variant B. In both, for a positive strength, the force is strictly larger at the
  smaller of two distances in \<open>[0, R)\<close>. A node at distance \<open>d < R\<close> gains the direction
  (the offset from the pointer divided by \<^verbatim>\<open>d || 1\<close>) times the force times 16 (variant A,
  plus its scatter) or 18 (variant B); a node at distance \<open>d \<ge> R\<close> gains nothing, and its
  tick is the spring, the damping (and the cap) and the integration only.
\<close>

theorem repulsion_force_law:
  "(0 < hoverRadius cA \<longrightarrow>
      force_A cA d = Some ((1 - d / hoverRadius cA)\<^sup>2 * repelStrength cA))
   \<and> (0 < repelRadius cB \<longrightarrow>
      force_B cB d = Some ((1 - d / repelRadius cB) * repelStrength_B cB))
   \<and> (0 \<le> d1 \<and> d1 < d2 \<and> d2 < hoverRadius cA \<and> 0 < repelStrength cA \<longrightarrow>
      (\<exists>f1 f2. force_A cA d1 = Some f1 \<and> force_A cA d2 = Some f2 \<and> f2 < f1))
   \<and> (0 \<le> d1 \<and> d1 < d2 \<and> d2 < repelRadius cB \<and> 0 < repelStrength_B cB \<longrightarrow>
      (\<exists>f1 f2. force_B cB d1 = Some f1 \<and> force_B cB d2 = Some f2 \<and> f2 < f1))
   \<and> (sqrt ((x n - mouse_x m) * (x n - mouse_x m) + (y n - mouse_y m) * (y n - mouse_y m)) = d
        \<and> d < hoverRadius cA \<longrightarrow>
      (\<exists>f. force_A cA d = Some f \<and> repel_A cA rnd m n k =
         Some (n\<lparr>vx := vx n + (x n - mouse_x m) / or_one d * f * 16
                      + (rnd k - 1 / 2) * noiseStrength cA,
                 vy := vy n + (y n - mouse_y m) / or_one d * f * 16
                      + (rnd (k + 1) - 1 / 2) * noiseStrength cA\<rparr>, k + 2)))
   \<and> (sqrt ((x n - mouse_x m) * (x n - mouse_x m) + (y n - mouse_y m) * (y n - mouse_y m)) = d
        \<and> d < repelRadius cB \<longrightarrow>
      (\<exists>f. force_B cB d = Some f \<and> repel_B cB m n =
         Some (n\<lparr>vx := vx n + (x n - mouse_x m) / or_one d * f * 18,
                 vy := vy n + (y n - mouse_y m) / or_one d * f * 18\<rparr>)))
   \<and> (hoverRadius cA \<le> sqrt ((x nf - mouse_x mf) * (x nf - mouse_x mf)
          + (y nf - mouse_y mf) * (y nf - mouse_y mf)) \<longrightarrow>
      repel_A cA rnd mf nf k = Some (nf, k)
      \<and> step_node_A cA rnd dt mf nf k
          = Some (integrate dt (cap_A cA (damp_A cA (spring_A cA nf))), k))
   \<and> (repelRadius cB \<le> sqrt ((x nf - mouse_x mf) * (x nf - mouse_x mf)
          + (y nf - mouse_y mf) * (y nf - mouse_y mf)) \<longrightarrow>
      repel_B cB mf nf = Some nf
      \<and> step_node_B cB dt mf nf = Some (integrate dt (damp_B cB (spring_B cB nf))))"
proof -
  have 1: "force_A cA d = Some ((1 - d / hoverRadius cA)\<^sup>2 * repelStrength cA)"
    if "0 < hoverRadius cA"
    using that by (simp add: force_A_Some power2_eq_square)
  have 2: "force_B cB d = Some ((1 - d / repelRadius cB) * repelStrength_B cB)"
    if "0 < repelRadius cB"
    using that by (simp add: force_B_Some)
  have 5: "\<exists>f. force_A cA d = Some f \<and> repel_A cA rnd m n k =
         Some (n\<lparr>vx := vx n + (x n - mouse_x m) / or_one d * f * 16
                      + (rnd k - 1 / 2) * noiseStrength cA,
                 vy := vy n + (y n - mouse_y m) / or_one d * f * 16
                      + (rnd (k + 1) - 1 / 2) * noiseStrength cA\<rparr>, k + 2)"
    if h: "sqrt ((x n - mouse_x m) * (x n - mouse_x m) + (y n - mouse_y m) * (y n - mouse_y m)) = d"
      "d < hoverRadius cA"
  proof -
    have "0 \<le> d" using h(1) dist_nonneg by blast
    then have "hoverRadius cA \<noteq> 0" using h(2) by linarith
    then show ?thesis using repel_A_near [OF h] by (simp add: force_A_Some)
  qed
  have 6: "\<exists>f. force_B cB d = Some f \<and> repel_B cB m n =
         Some (n\<lparr>vx := vx n + (x n - mouse_x m) / or_one d * f * 18,
                 vy := vy n + (y n - mouse_y m) / or_one d * f * 18\<rparr>)"
    if h: "sqrt ((x n - mouse_x m) * (x n - mouse_x m) + (y n - mouse_y m) * (y n - mouse_y m)) = d"
      "d < repelRadius cB"
  proof -
    have "0 \<le> d" using h(1) dist_nonneg by blast
    then have "repelRadius cB \<noteq> 0" using h(2) by linarith
    then show ?thesis using repel_B_near [OF h] by (simp add: force_B_Some)
  qed
  show ?thesis
    using 1 2 5 6 force_A_decreasing [of d1 d2 cA] force_B_decreasing [of d1 d2 cB]
      repel_A_far [of cA nf mf rnd k] step_node_A_far [of cA nf mf rnd dt k]
      repel_B_far [of cB nf mf] step_node_B_far [of cB nf mf dt]
    by blast
qed

theorem repulsion_force_law_witness:
  "0 < hoverRadius CFG_A \<and> 0 < repelRadius CFG_B
   \<and> force_A CFG_A 1 = Some ((1 - 1 / hoverRadius CFG_A)\<^sup>2 * repelStrength CFG_A)
   \<and> force_B CFG_B 1 = Some ((1 - 1 / repelRadius CFG_B) * repelStrength_B CFG_B)
   \<and> (0 \<le> (0::real) \<and> (0::real) < 19 \<and> 19 < hoverRadius CFG_A \<and> 0 < repelStrength CFG_A)
   \<and> (\<exists>f1 f2. force_A CFG_A 0 = Some f1 \<and> force_A CFG_A 19 = Some f2 \<and> f2 < f1)
   \<and> (19 < repelRadius CFG_B \<and> 0 < repelStrength_B CFG_B)
   \<and> (\<exists>f1 f2. force_B CFG_B 0 = Some f1 \<and> force_B CFG_B 19 = Some f2 \<and> f2 < f1)
   \<and> (\<exists>f. force_A CFG_A 1 = Some f
        \<and> repel_A CFG_A (\<lambda>_. 1 / 2) \<lparr>mouse_x = 0, mouse_y = 0, active = True\<rparr>
            \<lparr>ax = 1, ay = 0, x = 1, y = 0, vx = 0, vy = 0\<rparr> 4
          = Some (\<lparr>ax = 1, ay = 0, x = 1, y = 0, vx = f * 16, vy = 0\<rparr>, 6))
   \<and> (\<exists>f. force_B CFG_B 1 = Some f
        \<and> repel_B CFG_B \<lparr>mouse_x = 0, mouse_y = 0, active = True\<rparr>
            \<lparr>ax = 1, ay = 0, x = 1, y = 0, vx = 0, vy = 0\<rparr>
          = Some \<lparr>ax = 1, ay = 0, x = 1, y = 0, vx = f * 18, vy = 0\<rparr>)
   \<and> hoverRadius CFG_A \<le> sqrt ((200 - 0) * (200 - 0) + (0 - 0) * (0 - 0))
   \<and> repelRadius CFG_B \<le> sqrt ((200 - 0) * (200 - 0) + (0 - 0) * (0 - 0))
   \<and> repel_A CFG_A (\<lambda>_. 1 / 2) \<lparr>mouse_x = 0, mouse_y = 0, active = True\<rparr>
        \<lparr>ax = 200, ay = 0, x = 200, y = 0, vx = 0, vy = 0\<rparr> 4
      = Some (\<lparr>ax = 200, ay = 0, x = 200, y = 0, vx = 0, vy = 0\<rparr>, 4)
   \<and> repel_B CFG_B \<lparr>mouse_x = 0, mouse_y = 0, active = True\<rparr>
        \<lparr>ax = 200, ay = 0, x = 200, y = 0, vx = 0, vy = 0\<rparr>
      = Some \<lparr>ax = 200, ay = 0, x = 200, y = 0, vx = 0, vy = 0\<rparr>"
proof -
  note T = repulsion_force_law [of CFG_A 1 CFG_B 0 19
        "\<lparr>ax = 1, ay = 0, x = 1, y = 0, vx = 0, vy = 0\<rparr>"
        "\<lparr>mouse_x = 0, mouse_y = 0, active = True\<rparr>" "\<lambda>_. 1 / 2" 4
        "\<lparr>ax = 200, ay = 0, x = 200, y = 0, vx = 0, vy = 0\<rparr>"
        "\<lparr>mouse_x = 0, mouse_y = 0, active = True\<rparr>" 0]
  have h: "0 < hoverRadius CFG_A" "0 < repelRadius CFG_B" "19 < hoverRadius CFG_A"
    "0 < repelStrength CFG_A" "19 < repelRadius CFG_B" "0 < repelStrength_B CFG_B"
    "1 < hoverRadius CFG_A" "1 < repelRadius CFG_B"
    by (simp_all add: CFG_A_def CFG_B_def)
  have far: "hoverRadius CFG_A \<le> 200" "repelRadius CFG_B \<le> 200"
    by (simp_all add: CFG_A_def CFG_B_def)
  have c1: "force_A CFG_A 1 = Some ((1 - 1 / hoverRadius CFG_A)\<^sup>2 * repelStrength CFG_A)"
    using T h(1) by blast
  have c2: "force_B CFG_B 1 = Some ((1 - 1 / repelRadius CFG_B) * repelStrength_B CFG_B)"
    using T h(2) by blast
  have c3: "\<exists>f1 f2. force_A CFG_A 0 = Some f1 \<and> force_A CFG_A 19 = Some f2 \<and> f2 < f1"
    using T h(3,4) by simp
  have c4: "\<exists>f1 f2. force_B CFG_B 0 = Some f1 \<and> force_B CFG_B 19 = Some f2 \<and> f2 < f1"
    using T h(5,6) by simp
  have c5: "\<exists>f. force_A CFG_A 1 = Some f
        \<and> repel_A CFG_A (\<lambda>_. 1 / 2) \<lparr>mouse_x = 0, mouse_y = 0, active = True\<rparr>
            \<lparr>ax = 1, ay = 0, x = 1, y = 0, vx = 0, vy = 0\<rparr> 4
          = Some (\<lparr>ax = 1, ay = 0, x = 1, y = 0, vx = f * 16, vy = 0\<rparr>, 6)"
    using T h(7) by (auto simp add: or_one_def)
  have c6: "\<exists>f. force_B CFG_B 1 = Some f
        \<and> repel_B CFG_B \<lparr>mouse_x = 0, mouse_y = 0, active = True\<rparr>
            \<lparr>ax = 1, ay = 0, x = 1, y = 0, vx = 0, vy = 0\<rparr>
          = Some \<lparr>ax = 1, ay = 0, x = 1, y = 0, vx = f * 18, vy = 0\<rparr>"
    using T h(8) by (auto simp add: or_one_def)
  have c7: "repel_A CFG_A (\<lambda>_. 1 / 2) \<lparr>mouse_x = 0, mouse_y = 0, active = True\<rparr>
        \<lparr>ax = 200, ay = 0, x = 200, y = 0, vx = 0, vy = 0\<rparr> 4
      = Some (\<lparr>ax = 200, ay = 0, x = 200, y = 0, vx = 0, vy = 0\<rparr>, 4)"
    using T far(1) by simp
  have c8: "repel_B CFG_B \<lparr>mouse_x = 0, mouse_y = 0, active = True\<rparr>
        \<lparr>ax = 200, ay = 0, x = 200, y = 0, vx = 0, vy = 0\<rparr>
      = Some \<lparr>ax = 200, ay = 0, x = 200, y = 0, vx = 0, vy = 0\<rparr>"
    using T far(2) by simp
  show ?thesis
    using h far c1 c2 c3 c4 c5 c6 c7 c8 by simp
qed

subsection \<open>C4: the speed clamp\<close>

text \<open>
  Claim C4 as stated, for both variants: after a tick both velocity components are
  within \<open>[-maxSpeed, maxSpeed]\<close>. Variant B has no clamp (and no \<open>maxSpeed\<close>): a
  resting node one unit from the active pointer leaves the tick with \<open>vx = 8.4366\<close>,
  above the 7.0 of variant A's configuration.
\<close>

theorem speed_clamp_B_counterexample:
  "map_option vx (step_node_B CFG_B (1 / 60) \<lparr>mouse_x = 0, mouse_y = 0, active = True\<rparr>
     \<lparr>ax = 1, ay = 0, x = 1, y = 0, vx = 0, vy = 0\<rparr>) = Some (42183 / 5000)
   \<and> maxSpeed CFG_A < 42183 / 5000"
  by (simp add: step_node_B_def repel_B_def force_B_def js_div_def or_one_def Let_def
      spring_B_def damp_B_def integrate_def CFG_B_def CFG_A_def)

text \<open>
  Claim C4, amended to variant A. A tick of \<^verbatim>\<open>step\<close> returns, and in the new state
  every node of every tree has \<open>vx\<close> and \<open>vy\<close> within \<open>[-maxSpeed, maxSpeed]\<close>. For
  one node: with \<open>n1\<close> the node after the spring and the repulsion, each new velocity
  component is the clamp of the damped component of \<open>n1\<close>, and the new position is the
  old one plus the clamped velocity times \<open>dt * 60\<close>.
\<close>

theorem speed_clamp_A:
  "(\<exists>st' k'. step_A CFG_A rnd dt st k = Some (st', k') \<and>
      (\<forall>t\<in>set (trees st'). \<forall>n\<in>set (nodes t).
         - maxSpeed CFG_A \<le> vx n \<and> vx n \<le> maxSpeed CFG_A \<and>
         - maxSpeed CFG_A \<le> vy n \<and> vy n \<le> maxSpeed CFG_A))
   \<and> (\<exists>n1 k1 n'.
        (if active m then repel_A CFG_A rnd m (spring_A CFG_A n) k
         else Some (spring_A CFG_A n, k)) = Some (n1, k1)
      \<and> step_node_A CFG_A rnd dt m n k = Some (n', k1)
      \<and> vx n' = clamp (vx n1 * damping CFG_A) (- maxSpeed CFG_A) (maxSpeed CFG_A)
      \<and> vy n' = clamp (vy n1 * damping CFG_A) (- maxSpeed CFG_A) (maxSpeed CFG_A)
      \<and> x n' = x n + vx n' * (dt * 60)
      \<and> y n' = y n + vy n' * (dt * 60))"
proof
  have M: "0 \<le> maxSpeed CFG_A" by (simp add: CFG_A_def)
  obtain st' k' where s: "step_A CFG_A rnd dt st k = Some (st', k')"
    using step_A_total_frame [of CFG_A rnd dt st k] by blast
  then obtain ts1 where t: "step_trees_A CFG_A rnd dt (mouse_A st) (trees st) k = Some (ts1, k')"
    and st': "st' = st\<lparr>trees := ts1\<rparr>"
    by (auto simp: step_A_def bind_eq_Some_conv)
  have "\<forall>t\<in>set ts1. \<forall>n\<in>set (nodes t).
         - maxSpeed CFG_A \<le> vx n \<and> vx n \<le> maxSpeed CFG_A \<and>
         - maxSpeed CFG_A \<le> vy n \<and> vy n \<le> maxSpeed CFG_A"
    by (rule step_trees_A_all [OF _ t]) (rule step_node_A_capped [OF _ M])
  with s st' show "\<exists>st' k'. step_A CFG_A rnd dt st k = Some (st', k') \<and>
      (\<forall>t\<in>set (trees st'). \<forall>n\<in>set (nodes t).
         - maxSpeed CFG_A \<le> vx n \<and> vx n \<le> maxSpeed CFG_A \<and>
         - maxSpeed CFG_A \<le> vy n \<and> vy n \<le> maxSpeed CFG_A)"
    by simp
next
  show "\<exists>n1 k1 n'.
        (if active m then repel_A CFG_A rnd m (spring_A CFG_A n) k
         else Some (spring_A CFG_A n, k)) = Some (n1, k1)
      \<and> step_node_A CFG_A rnd dt m n k = Some (n', k1)
      \<and> vx n' = clamp (vx n1 * damping CFG_A) (- maxSpeed CFG_A) (maxSpeed CFG_A)
      \<and> vy n' = clamp (vy n1 * damping CFG_A) (- maxSpeed CFG_A) (maxSpeed CFG_A)
      \<and> x n' = x n + vx n' * (dt * 60)
      \<and> y n' = y n + vy n' * (dt * 60)"
    by (rule step_node_A_order)
qed

theorem speed_clamp_A_witness:
  "\<exists>st' k'. step_A CFG_A (\<lambda>_. 1 / 2) (1 / 60)
       \<lparr>trees = [\<lparr>cx = 1, cy = 0, scale = 26,
                   nodes = [\<lparr>ax = 1, ay = 0, x = 1, y = 0, vx = 0, vy = 0\<rparr>]\<rparr>],
        mouse_A = \<lparr>mouse_x = 0, mouse_y = 0, active = True\<rparr>, lastT_A = 0\<rparr> 0 = Some (st', k')
     \<and> map (\<lambda>t. map vx (nodes t)) (trees st') = [ [7] ]
     \<and> (\<forall>t\<in>set (trees st'). \<forall>n\<in>set (nodes t).
         - maxSpeed CFG_A \<le> vx n \<and> vx n \<le> maxSpeed CFG_A \<and>
         - maxSpeed CFG_A \<le> vy n \<and> vy n \<le> maxSpeed CFG_A)"
  using speed_clamp_A [of "\<lambda>_. 1 / 2" "1 / 60"
      "\<lparr>trees = [\<lparr>cx = 1, cy = 0, scale = 26,
                   nodes = [\<lparr>ax = 1, ay = 0, x = 1, y = 0, vx = 0, vy = 0\<rparr>]\<rparr>],
        mouse_A = \<lparr>mouse_x = 0, mouse_y = 0, active = True\<rparr>, lastT_A = 0\<rparr>" 0]
  by (simp add: step_A_def ex_step_node_A)

subsection \<open>C5: the pointer exactly on a node\<close>

text \<open>
  Claim C5. With the pointer exactly on a node, the distance is 0, the divisor
  \<^verbatim>\<open>d || 1\<close> is 1 (the unguarded division by \<open>d\<close> would not be finite), and the tick
  of either variant returns a node: no division by zero occurs. The direction is then
  (0, 0), so variant A adds only its scatter to the spring and variant B adds nothing.
\<close>

theorem pointer_on_node_finite:
  assumes "mouse_x m = x n" and "mouse_y m = y n"
  shows "(\<exists>n' k'. step_node_A cA rnd dt m n k = Some (n', k'))
     \<and> (\<exists>n'. step_node_B cB dt m n = Some n')
     \<and> or_one (sqrt ((x n - mouse_x m) * (x n - mouse_x m)
          + (y n - mouse_y m) * (y n - mouse_y m))) = 1
     \<and> js_div (x n - mouse_x m) (sqrt ((x n - mouse_x m) * (x n - mouse_x m)
          + (y n - mouse_y m) * (y n - mouse_y m))) = None
     \<and> (active m \<and> 0 < hoverRadius cA \<longrightarrow>
          step_node_A cA rnd dt m n k =
            Some (integrate dt (cap_A cA (damp_A cA ((spring_A cA n)
              \<lparr>vx := vx (spring_A cA n) + (rnd k - 1 / 2) * noiseStrength cA,
                vy := vy (spring_A cA n) + (rnd (k + 1) - 1 / 2) * noiseStrength cA\<rparr>))), k + 2))
     \<and> (0 < repelRadius cB \<longrightarrow>
          step_node_B cB dt m n = Some (integrate dt (damp_B cB (spring_B cB n))))"
proof -
  have a: "\<exists>n' k'. step_node_A cA rnd dt m n k = Some (n', k')"
    using step_node_A_frame [of cA rnd dt m n k] by blast
  have b: "\<exists>n'. step_node_B cB dt m n = Some n'"
    using step_node_B_frame [of cB dt m n] by blast
  have d: "sqrt ((x n - mouse_x m) * (x n - mouse_x m)
          + (y n - mouse_y m) * (y n - mouse_y m)) = 0"
    using assms by simp
  have dA: "sqrt ((x (spring_A cA n) - mouse_x m) * (x (spring_A cA n) - mouse_x m)
          + (y (spring_A cA n) - mouse_y m) * (y (spring_A cA n) - mouse_y m)) = 0"
    using assms by (simp add: spring_A_def)
  have dB: "sqrt ((x (spring_B cB n) - mouse_x m) * (x (spring_B cB n) - mouse_x m)
          + (y (spring_B cB n) - mouse_y m) * (y (spring_B cB n) - mouse_y m)) = 0"
    using assms by (simp add: spring_B_def)
  have e: "step_node_A cA rnd dt m n k =
            Some (integrate dt (cap_A cA (damp_A cA ((spring_A cA n)
              \<lparr>vx := vx (spring_A cA n) + (rnd k - 1 / 2) * noiseStrength cA,
                vy := vy (spring_A cA n) + (rnd (k + 1) - 1 / 2) * noiseStrength cA\<rparr>))), k + 2)"
    if "active m" "0 < hoverRadius cA"
    using that repel_A_near [OF dA, of cA rnd k] assms
    by (simp add: step_node_A_def or_one_def spring_A_def)
  have f: "step_node_B cB dt m n = Some (integrate dt (damp_B cB (spring_B cB n)))"
    if "0 < repelRadius cB"
    using that repel_B_near [OF dB, of cB] assms
    by (simp add: step_node_B_def or_one_def spring_B_def Let_def)
  show ?thesis
    using a b d e f by (simp add: or_one_def js_div_def)
qed

theorem pointer_on_node_finite_witness:
  "mouse_x \<lparr>mouse_x = 3, mouse_y = 4, active = True\<rparr> = x \<lparr>ax = 0, ay = 0, x = 3, y = 4, vx = 0, vy = 0\<rparr>
   \<and> mouse_y \<lparr>mouse_x = 3, mouse_y = 4, active = True\<rparr> = y \<lparr>ax = 0, ay = 0, x = 3, y = 4, vx = 0, vy = 0\<rparr>
   \<and> active \<lparr>mouse_x = 3, mouse_y = 4, active = True\<rparr> \<and> 0 < hoverRadius CFG_A
   \<and> 0 < repelRadius CFG_B
   \<and> step_node_A CFG_A (\<lambda>_. 1) (1 / 60) \<lparr>mouse_x = 3, mouse_y = 4, active = True\<rparr>
        \<lparr>ax = 0, ay = 0, x = 3, y = 4, vx = 0, vy = 0\<rparr> 0
      = Some (\<lparr>ax = 0, ay = 0, x = 3 - 559 / 10000, y = 4 - 129 / 1250,
               vx = - 559 / 10000, vy = - 129 / 1250\<rparr>, 2)
   \<and> step_node_B CFG_B (1 / 60) \<lparr>mouse_x = 3, mouse_y = 4, active = True\<rparr>
        \<lparr>ax = 0, ay = 0, x = 3, y = 4, vx = 0, vy = 0\<rparr>
      = Some \<lparr>ax = 0, ay = 0, x = 3 - 387 / 2500, y = 4 - 129 / 625,
              vx = - 387 / 2500, vy = - 129 / 625\<rparr>"
  using pointer_on_node_finite [of "\<lparr>mouse_x = 3, mouse_y = 4, active = True\<rparr>"
      "\<lparr>ax = 0, ay = 0, x = 3, y = 4, vx = 0, vy = 0\<rparr>" CFG_A "\<lambda>_. 1" "1 / 60" 0 CFG_B]
  by (simp add: integrate_def cap_A_def damp_A_def spring_A_def clamp_def
      damp_B_def spring_B_def CFG_A_def CFG_B_def)

subsection \<open>C9: what a tick leaves unchanged\<close>

text \<open>
  Claim C9. A tick of \<^verbatim>\<open>step\<close> returns in both variants and leaves unchanged: in
  variant A the number of trees, each tree's centre and scale, the number of nodes of
  each tree and every node's anchor, the pointer state and \<^verbatim>\<open>lastT\<close>; in variant B the
  number of nodes, every node's anchor, the pointer state, \<^verbatim>\<open>lastT\<close> and
  \<^verbatim>\<open>dpr\<close>. Only positions and velocities can differ.
\<close>

theorem step_frame:
  "(\<exists>st' k'. step_A cA rnd dt st k = Some (st', k')
      \<and> length (trees st') = length (trees st)
      \<and> map cx (trees st') = map cx (trees st)
      \<and> map cy (trees st') = map cy (trees st)
      \<and> map scale (trees st') = map scale (trees st)
      \<and> map (\<lambda>t. length (nodes t)) (trees st') = map (\<lambda>t. length (nodes t)) (trees st)
      \<and> map (\<lambda>t. map ax (nodes t)) (trees st') = map (\<lambda>t. map ax (nodes t)) (trees st)
      \<and> map (\<lambda>t. map ay (nodes t)) (trees st') = map (\<lambda>t. map ay (nodes t)) (trees st)
      \<and> mouse_A st' = mouse_A st \<and> lastT_A st' = lastT_A st)
   \<and> (\<exists>sb'. step_B cB dt sb = Some sb'
      \<and> length (nodes_B sb') = length (nodes_B sb)
      \<and> map ax (nodes_B sb') = map ax (nodes_B sb)
      \<and> map ay (nodes_B sb') = map ay (nodes_B sb)
      \<and> mouse_B sb' = mouse_B sb \<and> lastT_B sb' = lastT_B sb \<and> dpr sb' = dpr sb)"
proof
  obtain st' k' where a: "step_A cA rnd dt st k = Some (st', k')"
    "map cx (trees st') = map cx (trees st)" "map cy (trees st') = map cy (trees st)"
    "map scale (trees st') = map scale (trees st)"
    "map (\<lambda>t. map ax (nodes t)) (trees st') = map (\<lambda>t. map ax (nodes t)) (trees st)"
    "map (\<lambda>t. map ay (nodes t)) (trees st') = map (\<lambda>t. map ay (nodes t)) (trees st)"
    "mouse_A st' = mouse_A st" "lastT_A st' = lastT_A st"
    using step_A_total_frame [of cA rnd dt st k] by blast
  have l: "length (trees st') = length (trees st)"
    using a(2) map_eq_imp_length_eq by blast
  have "map (\<lambda>t. length (map ax (nodes t))) (trees st')
      = map (\<lambda>t. length (map ax (nodes t))) (trees st)"
    using arg_cong [OF a(5), of "map length"] by (simp add: comp_def)
  then have "map (\<lambda>t. length (nodes t)) (trees st') = map (\<lambda>t. length (nodes t)) (trees st)"
    by simp
  with a l show "\<exists>st' k'. step_A cA rnd dt st k = Some (st', k')
      \<and> length (trees st') = length (trees st)
      \<and> map cx (trees st') = map cx (trees st)
      \<and> map cy (trees st') = map cy (trees st)
      \<and> map scale (trees st') = map scale (trees st)
      \<and> map (\<lambda>t. length (nodes t)) (trees st') = map (\<lambda>t. length (nodes t)) (trees st)
      \<and> map (\<lambda>t. map ax (nodes t)) (trees st') = map (\<lambda>t. map ax (nodes t)) (trees st)
      \<and> map (\<lambda>t. map ay (nodes t)) (trees st') = map (\<lambda>t. map ay (nodes t)) (trees st)
      \<and> mouse_A st' = mouse_A st \<and> lastT_A st' = lastT_A st"
    by blast
next
  obtain sb' where b: "step_B cB dt sb = Some sb'"
    "map ax (nodes_B sb') = map ax (nodes_B sb)" "map ay (nodes_B sb') = map ay (nodes_B sb)"
    "mouse_B sb' = mouse_B sb" "lastT_B sb' = lastT_B sb" "dpr sb' = dpr sb"
    using step_B_total_frame [of cB dt sb] by blast
  have "length (nodes_B sb') = length (nodes_B sb)"
    using b(2) map_eq_imp_length_eq by blast
  with b show "\<exists>sb'. step_B cB dt sb = Some sb'
      \<and> length (nodes_B sb') = length (nodes_B sb)
      \<and> map ax (nodes_B sb') = map ax (nodes_B sb)
      \<and> map ay (nodes_B sb') = map ay (nodes_B sb)
      \<and> mouse_B sb' = mouse_B sb \<and> lastT_B sb' = lastT_B sb \<and> dpr sb' = dpr sb"
    by blast
qed

section \<open>Placement of the tree centres (variant A)\<close>

text \<open>
  The result of \<^verbatim>\<open>chooseTreeCenter\<close> in terms of the pairs it draws: pair \<open>i\<close> is
  \<open>(rnd (k + 2 * i), rnd (k + 2 * i + 1))\<close>. The returned point is pair \<open>j\<close> scaled to
  the surface, where the pairs before \<open>j\<close> were the rejected candidates of the tries
  \<open>0, \<dots>, j - 1\<close>; \<open>j < 40\<close> is a return inside the loop and \<open>j = 40\<close> the fallback.
\<close>

lemma chooseTreeCenter_from_spec:
  "tries \<le> 40 \<Longrightarrow>
   \<exists>j. tries + j \<le> 40
     \<and> chooseTreeCenter_from c rnd W H tries k
         = ((rnd (k + 2 * j) * W, rnd (k + 2 * j + 1) * H), k + 2 * j + 2)
     \<and> (tries + j < 40 \<longrightarrow> \<not> inSafeBox c (rnd (k + 2 * j)) (rnd (k + 2 * j + 1))
           \<and> (edgeBias (rnd (k + 2 * j)) (rnd (k + 2 * j + 1)) \<or> 15 < tries + j))
     \<and> (\<forall>i<j. inSafeBox c (rnd (k + 2 * i)) (rnd (k + 2 * i + 1))
           \<or> (tries + i \<le> 15 \<and> \<not> edgeBias (rnd (k + 2 * i)) (rnd (k + 2 * i + 1))))"
proof (induction c rnd W H tries k rule: chooseTreeCenter_from.induct)
  case (1 c rnd W H tries k)
  let ?acc = "\<not> inSafeBox c (rnd k) (rnd (k + 1)) \<and> (edgeBias (rnd k) (rnd (k + 1)) \<or> 15 < tries)"
  show ?case
  proof (cases "tries < 40")
    case False
    with "1.prems" have "tries = 40" by simp
    then show ?thesis
      by (intro exI [of _ 0]) (simp add: chooseTreeCenter_from.simps [of c rnd W H 40 k])
  next
    case True
    show ?thesis
    proof (cases ?acc)
      case acc: True
      then have "chooseTreeCenter_from c rnd W H tries k = ((rnd k * W, rnd (k + 1) * H), k + 2)"
        using True by (auto simp: chooseTreeCenter_from.simps [of c rnd W H tries k])
      with acc True show ?thesis
        by (intro exI [of _ 0]) simp
    next
      case rej: False
      then have r: "inSafeBox c (rnd k) (rnd (k + 1))
          \<or> (tries \<le> 15 \<and> \<not> edgeBias (rnd k) (rnd (k + 1)))"
        by auto
      have e: "chooseTreeCenter_from c rnd W H tries k
          = chooseTreeCenter_from c rnd W H (tries + 1) (k + 2)"
        using True rej by (auto simp: chooseTreeCenter_from.simps [of c rnd W H tries k])
      have "\<exists>j. tries + 1 + j \<le> 40
         \<and> chooseTreeCenter_from c rnd W H (tries + 1) (k + 2)
             = ((rnd (k + 2 + 2 * j) * W, rnd (k + 2 + 2 * j + 1) * H), k + 2 + 2 * j + 2)
         \<and> (tries + 1 + j < 40 \<longrightarrow>
               \<not> inSafeBox c (rnd (k + 2 + 2 * j)) (rnd (k + 2 + 2 * j + 1))
               \<and> (edgeBias (rnd (k + 2 + 2 * j)) (rnd (k + 2 + 2 * j + 1)) \<or> 15 < tries + 1 + j))
         \<and> (\<forall>i<j. inSafeBox c (rnd (k + 2 + 2 * i)) (rnd (k + 2 + 2 * i + 1))
               \<or> (tries + 1 + i \<le> 15
                   \<and> \<not> edgeBias (rnd (k + 2 + 2 * i)) (rnd (k + 2 + 2 * i + 1))))"
        using True rej by (intro "1.IH") auto
      then obtain j where j: "tries + 1 + j \<le> 40"
        "chooseTreeCenter_from c rnd W H (tries + 1) (k + 2)
             = ((rnd (k + 2 + 2 * j) * W, rnd (k + 2 + 2 * j + 1) * H), k + 2 + 2 * j + 2)"
        "tries + 1 + j < 40 \<longrightarrow>
               \<not> inSafeBox c (rnd (k + 2 + 2 * j)) (rnd (k + 2 + 2 * j + 1))
               \<and> (edgeBias (rnd (k + 2 + 2 * j)) (rnd (k + 2 + 2 * j + 1)) \<or> 15 < tries + 1 + j)"
        "\<forall>i<j. inSafeBox c (rnd (k + 2 + 2 * i)) (rnd (k + 2 + 2 * i + 1))
               \<or> (tries + 1 + i \<le> 15
                   \<and> \<not> edgeBias (rnd (k + 2 + 2 * i)) (rnd (k + 2 + 2 * i + 1)))"
        by blast
      have s: "k + 2 + 2 * i = k + 2 * Suc i" "tries + 1 + i = tries + Suc i" for i
        by simp_all
      have all: "inSafeBox c (rnd (k + 2 * i)) (rnd (k + 2 * i + 1))
           \<or> (tries + i \<le> 15 \<and> \<not> edgeBias (rnd (k + 2 * i)) (rnd (k + 2 * i + 1)))"
        if "i < Suc j" for i
      proof (cases i)
        case 0
        with r show ?thesis by simp
      next
        case (Suc i')
        with that have "i' < j" by simp
        with j(4) show ?thesis unfolding Suc s by blast
      qed
      show ?thesis
        using j(1,2,3) e all unfolding s
        by (intro exI [of _ "Suc j"]) auto
    qed
  qed
qed


lemma chooseTreeCenter_spec:
  "\<exists>j\<le>40. chooseTreeCenter c rnd W H k
         = ((rnd (k + 2 * j) * W, rnd (k + 2 * j + 1) * H), k + 2 * j + 2)
     \<and> (j < 40 \<longrightarrow> \<not> inSafeBox c (rnd (k + 2 * j)) (rnd (k + 2 * j + 1))
           \<and> (edgeBias (rnd (k + 2 * j)) (rnd (k + 2 * j + 1)) \<or> 15 < j))
     \<and> (\<forall>i<j. inSafeBox c (rnd (k + 2 * i)) (rnd (k + 2 * i + 1))
           \<or> (i \<le> 15 \<and> \<not> edgeBias (rnd (k + 2 * i)) (rnd (k + 2 * i + 1))))"
  using chooseTreeCenter_from_spec [of 0 c rnd W H k]
  by (simp add: chooseTreeCenter_def)

lemma unit_rng_scaled:
  "unit_rng rnd \<Longrightarrow> 0 < W \<Longrightarrow> 0 \<le> rnd i * W \<and> rnd i * W < W"
  by (simp add: unit_rng_def)

subsection \<open>C6: termination and containment\<close>

text \<open>
  Claim C6. \<^verbatim>\<open>chooseTreeCenter\<close> is a total function (its loop is bounded by
  \<open>40 - tries\<close>). For every configuration of the safe zone, with \<^verbatim>\<open>Math.random\<close> in
  \<open>[0, 1)\<close> and a surface of positive width and height, it returns pair \<open>j\<close> for some
  \<open>j \<le> 40\<close>, having drawn \<open>j + 1\<close> pairs: at most 40 candidates and, only when all 40
  were rejected, the fallback pair. The returned point is inside the surface. When
  the safe zone holds every candidate, the result is the fallback (\<open>j = 40\<close>).
\<close>

theorem chooseTreeCenter_bounded:
  assumes "unit_rng rnd" and "0 < W" and "0 < H"
  shows "\<exists>j\<le>40. \<exists>px py.
       chooseTreeCenter c rnd W H k = ((px, py), k + 2 * j + 2)
     \<and> px = rnd (k + 2 * j) * W \<and> py = rnd (k + 2 * j + 1) * H
     \<and> 0 \<le> px \<and> px < W \<and> 0 \<le> py \<and> py < H
     \<and> ((\<forall>i<40. inSafeBox c (rnd (k + 2 * i)) (rnd (k + 2 * i + 1))) \<longrightarrow> j = 40)"
proof -
  obtain j where j: "j \<le> 40"
    "chooseTreeCenter c rnd W H k
         = ((rnd (k + 2 * j) * W, rnd (k + 2 * j + 1) * H), k + 2 * j + 2)"
    "j < 40 \<longrightarrow> \<not> inSafeBox c (rnd (k + 2 * j)) (rnd (k + 2 * j + 1))"
    using chooseTreeCenter_spec [of c rnd W H k] by blast
  have "j = 40" if "\<forall>i<40. inSafeBox c (rnd (k + 2 * i)) (rnd (k + 2 * i + 1))"
    using that j(1,3) by (cases "j < 40") auto
  then show ?thesis
    using j(1,2) unit_rng_scaled [OF assms(1,2), of "k + 2 * j"]
      unit_rng_scaled [OF assms(1,3), of "k + 2 * j + 1"]
    by (intro exI [of _ j]) simp
qed

theorem chooseTreeCenter_bounded_witness:
  "unit_rng (\<lambda>_. 1 / 2) \<and> (0::real) < 800 \<and> (0::real) < 600
   \<and> inSafeBox CFG_A (1 / 2) (1 / 2)
   \<and> chooseTreeCenter CFG_A (\<lambda>_. 1 / 2) 800 600 0 = ((400, 300), 82)"
proof -
  have u: "unit_rng (\<lambda>_. 1 / 2)" by (simp add: unit_rng_def)
  have b: "inSafeBox CFG_A (1 / 2) (1 / 2)"
    by (simp add: inSafeBox_def CFG_A_def)
  then have s: "\<forall>i<40. inSafeBox CFG_A ((\<lambda>_. 1 / 2) (0 + 2 * i)) ((\<lambda>_. 1 / 2) (0 + 2 * i + 1))"
    by simp
  have "chooseTreeCenter CFG_A (\<lambda>_. 1 / 2) 800 600 0 = ((400, 300), 82)"
    using chooseTreeCenter_bounded [OF u, of 800 600 CFG_A 0] s by auto
  with u b show ?thesis by simp
qed

subsection \<open>C7: what the retry loop accepts\<close>

text \<open>
  Claim C7 as stated: after 15 failed tries any point outside the safe zone is
  accepted. The source tests \<^verbatim>\<open>tries > 15\<close>: with 15 candidates inside the safe zone,
  the next one, (0.25, 0.5), is outside the safe zone and lacks the edge bias, and is
  rejected although 15 tries have failed; the try after it returns (0.1, 0.1), as the
  point (80, 60) and the 34 draws show.
\<close>

theorem relaxation_not_at_15_counterexample:
  "\<not> inSafeBox CFG_A (1 / 4) (1 / 2)
   \<and> chooseTreeCenter CFG_A
        (\<lambda>i. if i < 30 then 1 / 2 else if i = 30 then 1 / 4 else if i = 31 then 1 / 2 else 1 / 10)
        800 600 0 = ((80, 60), 34)"
proof -
  let ?r = "\<lambda>i::nat. if i < 30 then 1 / 2 else if i = 30 then 1 / 4
      else if i = 31 then 1 / 2 else (1 / 10 :: real)"
  have f: "inSafeBox CFG_A (1 / 2) (1 / 2)" "\<not> inSafeBox CFG_A (1 / 4) (1 / 2)"
    "\<not> edgeBias (1 / 4) (1 / 2)" "\<not> inSafeBox CFG_A (1 / 10) (1 / 10)"
    "edgeBias (1 / 10) (1 / 10)"
    by (simp_all add: inSafeBox_def edgeBias_def CFG_A_def)
  obtain j where j: "j \<le> 40"
    "chooseTreeCenter CFG_A ?r 800 600 0
       = ((?r (0 + 2 * j) * 800, ?r (0 + 2 * j + 1) * 600), 0 + 2 * j + 2)"
    "j < 40 \<longrightarrow> \<not> inSafeBox CFG_A (?r (0 + 2 * j)) (?r (0 + 2 * j + 1))
           \<and> (edgeBias (?r (0 + 2 * j)) (?r (0 + 2 * j + 1)) \<or> 15 < j)"
    "\<forall>i<j. inSafeBox CFG_A (?r (0 + 2 * i)) (?r (0 + 2 * i + 1))
           \<or> (i \<le> 15 \<and> \<not> edgeBias (?r (0 + 2 * i)) (?r (0 + 2 * i + 1)))"
    using chooseTreeCenter_spec [of CFG_A ?r 800 600 0] by blast
  have "\<not> j < 15"
  proof
    assume "j < 15"
    then have "j < 40" "2 * j < 30" "2 * j + 1 < 30" by simp_all
    with j(3) f(1) show False by simp
  qed
  moreover have "j \<noteq> 15"
  proof
    assume "j = 15"
    with j(3) f(3) show False by simp
  qed
  moreover have "j < 17"
  proof (rule ccontr)
    assume "\<not> j < 17"
    then have "16 < j" by simp
    with j(4) have "inSafeBox CFG_A (?r (0 + 2 * 16)) (?r (0 + 2 * 16 + 1))
           \<or> (16 \<le> (15::nat) \<and> \<not> edgeBias (?r (0 + 2 * 16)) (?r (0 + 2 * 16 + 1)))"
      by blast
    with f(4) show False by simp
  qed
  ultimately have "j = 16" by simp
  with j(2) have "chooseTreeCenter CFG_A ?r 800 600 0 = ((80, 60), 34)" by simp
  with f(2) show ?thesis by simp
qed

text \<open>
  Claim C7, amended. With \<open>j\<close> the number of failed tries before the return: a return
  inside the loop (\<open>j < 40\<close>) is a candidate outside the safe zone, and with \<open>j \<le> 15\<close>
  it also satisfies the edge bias. Every rejected candidate \<open>i\<close> was inside the safe
  zone or, with \<open>i \<le> 15\<close> failed tries before it, lacked the edge bias: once more than
  15 tries have failed (from the 17th try on), any point outside the safe zone is
  accepted.
\<close>

theorem accepted_center_outside_safe_zone:
  "\<exists>j\<le>40. chooseTreeCenter c rnd W H k
         = ((rnd (k + 2 * j) * W, rnd (k + 2 * j + 1) * H), k + 2 * j + 2)
     \<and> (j < 40 \<longrightarrow> \<not> inSafeBox c (rnd (k + 2 * j)) (rnd (k + 2 * j + 1))
           \<and> (j \<le> 15 \<longrightarrow> edgeBias (rnd (k + 2 * j)) (rnd (k + 2 * j + 1))))
     \<and> (\<forall>i<j. inSafeBox c (rnd (k + 2 * i)) (rnd (k + 2 * i + 1))
           \<or> (i \<le> 15 \<and> \<not> edgeBias (rnd (k + 2 * i)) (rnd (k + 2 * i + 1))))"
proof -
  obtain j where j: "j \<le> 40"
    "chooseTreeCenter c rnd W H k
         = ((rnd (k + 2 * j) * W, rnd (k + 2 * j + 1) * H), k + 2 * j + 2)"
    "j < 40 \<longrightarrow> \<not> inSafeBox c (rnd (k + 2 * j)) (rnd (k + 2 * j + 1))
           \<and> (edgeBias (rnd (k + 2 * j)) (rnd (k + 2 * j + 1)) \<or> 15 < j)"
    "\<forall>i<j. inSafeBox c (rnd (k + 2 * i)) (rnd (k + 2 * i + 1))
           \<or> (i \<le> 15 \<and> \<not> edgeBias (rnd (k + 2 * i)) (rnd (k + 2 * i + 1)))"
    using chooseTreeCenter_spec [of c rnd W H k] by blast
  from j(3) have "j < 40 \<longrightarrow> \<not> inSafeBox c (rnd (k + 2 * j)) (rnd (k + 2 * j + 1))
           \<and> (j \<le> 15 \<longrightarrow> edgeBias (rnd (k + 2 * j)) (rnd (k + 2 * j + 1)))"
    by auto
  with j(1,2,4) show ?thesis by blast
qed

theorem accepted_center_outside_safe_zone_witness:
  "chooseTreeCenter CFG_A (\<lambda>i. if i < 2 then 1 / 2 else 1 / 10) 800 600 0 = ((80, 60), 4)
   \<and> inSafeBox CFG_A (1 / 2) (1 / 2)
   \<and> \<not> inSafeBox CFG_A (1 / 10) (1 / 10) \<and> edgeBias (1 / 10) (1 / 10)
   \<and> chooseTreeCenter CFG_A (\<lambda>i. if i < 32 then 1 / 2 else if even i then 3 / 10 else 1 / 2)
        800 600 0 = ((240, 300), 34)
   \<and> \<not> inSafeBox CFG_A (3 / 10) (1 / 2) \<and> \<not> edgeBias (3 / 10) (1 / 2)"
proof -
  have f: "inSafeBox CFG_A (1 / 2) (1 / 2)" "\<not> inSafeBox CFG_A (1 / 10) (1 / 10)"
    "edgeBias (1 / 10) (1 / 10)" "\<not> inSafeBox CFG_A (3 / 10) (1 / 2)"
    "\<not> edgeBias (3 / 10) (1 / 2)"
    by (simp_all add: inSafeBox_def edgeBias_def CFG_A_def)
  let ?r = "\<lambda>i::nat. if i < 2 then 1 / 2 else (1 / 10 :: real)"
  obtain j where j: "j \<le> 40"
    "chooseTreeCenter CFG_A ?r 800 600 0
       = ((?r (0 + 2 * j) * 800, ?r (0 + 2 * j + 1) * 600), 0 + 2 * j + 2)"
    "j < 40 \<longrightarrow> \<not> inSafeBox CFG_A (?r (0 + 2 * j)) (?r (0 + 2 * j + 1))"
    "\<forall>i<j. inSafeBox CFG_A (?r (0 + 2 * i)) (?r (0 + 2 * i + 1))
           \<or> (i \<le> 15 \<and> \<not> edgeBias (?r (0 + 2 * i)) (?r (0 + 2 * i + 1)))"
    using accepted_center_outside_safe_zone [of CFG_A ?r 800 600 0] by blast
  have "j \<noteq> 0"
  proof
    assume "j = 0"
    with j(3) f(1) show False by simp
  qed
  moreover have "j < 2"
  proof (rule ccontr)
    assume "\<not> j < 2"
    then have "1 < j" by simp
    with j(4) have "inSafeBox CFG_A (?r (0 + 2 * 1)) (?r (0 + 2 * 1 + 1))
           \<or> (1 \<le> (15::nat) \<and> \<not> edgeBias (?r (0 + 2 * 1)) (?r (0 + 2 * 1 + 1)))"
      by blast
    with f(2,3) show False by simp
  qed
  ultimately have "j = 1" by simp
  with j(2) have a: "chooseTreeCenter CFG_A ?r 800 600 0 = ((80, 60), 4)" by simp
  let ?s = "\<lambda>i::nat. if i < 32 then 1 / 2 else if even i then 3 / 10 else (1 / 2 :: real)"
  obtain l where l: "l \<le> 40"
    "chooseTreeCenter CFG_A ?s 800 600 0
       = ((?s (0 + 2 * l) * 800, ?s (0 + 2 * l + 1) * 600), 0 + 2 * l + 2)"
    "l < 40 \<longrightarrow> \<not> inSafeBox CFG_A (?s (0 + 2 * l)) (?s (0 + 2 * l + 1))"
    "\<forall>i<l. inSafeBox CFG_A (?s (0 + 2 * i)) (?s (0 + 2 * i + 1))
           \<or> (i \<le> 15 \<and> \<not> edgeBias (?s (0 + 2 * i)) (?s (0 + 2 * i + 1)))"
    using accepted_center_outside_safe_zone [of CFG_A ?s 800 600 0] by blast
  have "\<not> l < 16"
  proof
    assume "l < 16"
    then have "l < 40" "2 * l < 32" "2 * l + 1 < 32" by simp_all
    with l(3) f(1) show False by simp
  qed
  moreover have "l < 17"
  proof (rule ccontr)
    assume "\<not> l < 17"
    then have "16 < l" by simp
    with l(4) have "inSafeBox CFG_A (?s (0 + 2 * 16)) (?s (0 + 2 * 16 + 1))
           \<or> (16 \<le> (15::nat) \<and> \<not> edgeBias (?s (0 + 2 * 16)) (?s (0 + 2 * 16 + 1)))"
      by blast
    with f(4) show False by simp
  qed
  ultimately have "l = 16" by simp
  with l(2) have b: "chooseTreeCenter CFG_A ?s 800 600 0 = ((240, 300), 34)" by simp
  from a b f show ?thesis by simp
qed

section \<open>The links (variant B)\<close>

lemma link_eq:
  "link c a b =
     Some (if dist2 a b < (linkDist c)\<^sup>2
           then [Stroke (toFixed3 (spec_link_alpha c a b)) (x a) (y a) (x b) (y b)] else [])"
proof (cases "dist2 a b < (linkDist c)\<^sup>2")
  case True
  have "0 \<le> dist2 a b" by (simp add: dist2_def)
  with True have "0 < (linkDist c)\<^sup>2" by linarith
  then have "linkDist c * linkDist c \<noteq> 0" by auto
  with True show ?thesis
    by (simp add: link_def Let_def js_div_Some spec_link_alpha_def dist2_def power2_eq_square)
next
  case False
  then show ?thesis
    by (simp add: link_def Let_def dist2_def power2_eq_square)
qed

lemma each_cmds_total:
  "\<forall>i\<in>set js. body i = Some (f i) \<Longrightarrow> each_cmds body js = Some (concat (map f js))"
  by (induction js) simp_all

lemma draw_links_eq:
  "draw_links c ns =
     Some (concat (map (\<lambda>i. concat (map (\<lambda>j.
        if dist2 (ns ! i) (ns ! j) < (linkDist c)\<^sup>2
        then [Stroke (toFixed3 (spec_link_alpha c (ns ! i) (ns ! j)))
                (x (ns ! i)) (y (ns ! i)) (x (ns ! j)) (y (ns ! j))]
        else []) [i + 1..<length ns])) [0..<length ns]))"
  unfolding draw_links_def
  by (intro each_cmds_total ballI) (simp add: link_eq)

lemma toFixed3_near: "\<bar>toFixed3 a - a\<bar> \<le> 1 / 2000"
proof -
  define f where "f = real_of_int \<lfloor>a * 1000 + 1 / 2\<rfloor>"
  have "f \<le> a * 1000 + 1 / 2" "a * 1000 + 1 / 2 < f + 1"
    unfolding f_def by linarith+
  then have "f / 1000 - a \<le> 1 / 2000" "- (1 / 2000) \<le> f / 1000 - a"
    by linarith+
  then show ?thesis
    unfolding toFixed3_def f_def [symmetric] by linarith
qed

lemma toFixed3_linkAlpha: "toFixed3 (linkAlpha CFG_B) = linkAlpha CFG_B"
  by (simp add: toFixed3_def CFG_B_def)

subsection \<open>C8: the link rendering law\<close>

text \<open>
  Claim C8. \<^verbatim>\<open>draw\<close> goes through the pairs \<open>i < j\<close> in order and strokes one segment
  from node \<open>i\<close> to node \<open>j\<close> exactly when their squared distance is below
  \<open>linkDist\<^sup>2\<close>; the alpha of the stroke style is \<open>linkAlpha * (1 - d\<^sup>2 / max\<^sup>2)\<close> written
  with three decimals, so within 0.0005 of it. Two coincident nodes are linked with
  exactly the base alpha 0.22; a pair exactly at the threshold is not drawn, and the
  formula is 0 there; below the threshold the formula is in \<open>(0, linkAlpha]\<close>.
\<close>

theorem link_rendering_law:
  "draw_links c ns =
     Some (concat (map (\<lambda>i. concat (map (\<lambda>j.
        if dist2 (ns ! i) (ns ! j) < (linkDist c)\<^sup>2
        then [Stroke (toFixed3 (spec_link_alpha c (ns ! i) (ns ! j)))
                (x (ns ! i)) (y (ns ! i)) (x (ns ! j)) (y (ns ! j))]
        else []) [i + 1..<length ns])) [0..<length ns]))
   \<and> \<bar>toFixed3 (spec_link_alpha c a b) - spec_link_alpha c a b\<bar> \<le> 1 / 2000
   \<and> (x a = x b \<and> y a = y b \<longrightarrow>
        link CFG_B a b = Some [Stroke (linkAlpha CFG_B) (x a) (y a) (x b) (y b)])
   \<and> (dist2 a b = (linkDist c)\<^sup>2 \<longrightarrow>
        link c a b = Some [] \<and> (linkDist c \<noteq> 0 \<longrightarrow> spec_link_alpha c a b = 0))
   \<and> (dist2 a b < (linkDist c)\<^sup>2 \<and> 0 < linkAlpha c \<longrightarrow>
        0 < spec_link_alpha c a b \<and> spec_link_alpha c a b \<le> linkAlpha c)"
proof -
  have co: "link CFG_B a b = Some [Stroke (linkAlpha CFG_B) (x a) (y a) (x b) (y b)]"
    if "x a = x b \<and> y a = y b"
  proof -
    from that have "dist2 a b = 0" by (simp add: dist2_def)
    then have "dist2 a b < (linkDist CFG_B)\<^sup>2" "spec_link_alpha CFG_B a b = linkAlpha CFG_B"
      by (simp_all add: spec_link_alpha_def CFG_B_def)
    then show ?thesis by (simp add: link_eq toFixed3_linkAlpha)
  qed
  have th: "link c a b = Some [] \<and> (linkDist c \<noteq> 0 \<longrightarrow> spec_link_alpha c a b = 0)"
    if "dist2 a b = (linkDist c)\<^sup>2"
    using that by (simp add: link_eq spec_link_alpha_def)
  have rg: "0 < spec_link_alpha c a b \<and> spec_link_alpha c a b \<le> linkAlpha c"
    if h: "dist2 a b < (linkDist c)\<^sup>2 \<and> 0 < linkAlpha c"
  proof -
    have d: "0 \<le> dist2 a b" by (simp add: dist2_def)
    with h have p: "0 < (linkDist c)\<^sup>2" by linarith
    with h d have "0 \<le> dist2 a b / (linkDist c)\<^sup>2" "dist2 a b / (linkDist c)\<^sup>2 < 1"
      by simp_all
    with h show ?thesis
      by (simp add: spec_link_alpha_def mult_le_cancel_left2)
  qed
  show ?thesis
    using draw_links_eq [of c ns] toFixed3_near [of "spec_link_alpha c a b"] co th rg
    by blast
qed

theorem link_rendering_law_witness:
  "draw_links CFG_B [\<lparr>ax = 0, ay = 0, x = 0, y = 0, vx = 0, vy = 0\<rparr>,
                     \<lparr>ax = 17, ay = 0, x = 17, y = 0, vx = 0, vy = 0\<rparr>,
                     \<lparr>ax = 34, ay = 0, x = 34, y = 0, vx = 0, vy = 0\<rparr>]
     = Some [Stroke (165 / 1000) 0 0 17 0, Stroke (165 / 1000) 17 0 34 0]
   \<and> x \<lparr>ax = 0, ay = 0, x = 0, y = 0, vx = 0, vy = 0\<rparr>
       = x \<lparr>ax = 5, ay = 5, x = 0, y = 0, vx = 1, vy = 1\<rparr>
   \<and> y \<lparr>ax = 0, ay = 0, x = 0, y = 0, vx = 0, vy = 0\<rparr>
       = y \<lparr>ax = 5, ay = 5, x = 0, y = 0, vx = 1, vy = 1\<rparr>
   \<and> link CFG_B \<lparr>ax = 0, ay = 0, x = 0, y = 0, vx = 0, vy = 0\<rparr>
         \<lparr>ax = 5, ay = 5, x = 0, y = 0, vx = 1, vy = 1\<rparr>
       = Some [Stroke (22 / 100) 0 0 0 0]
   \<and> dist2 \<lparr>ax = 0, ay = 0, x = 0, y = 0, vx = 0, vy = 0\<rparr>
         \<lparr>ax = 34, ay = 0, x = 34, y = 0, vx = 0, vy = 0\<rparr> = (linkDist CFG_B)\<^sup>2
   \<and> linkDist CFG_B \<noteq> 0
   \<and> link CFG_B \<lparr>ax = 0, ay = 0, x = 0, y = 0, vx = 0, vy = 0\<rparr>
         \<lparr>ax = 34, ay = 0, x = 34, y = 0, vx = 0, vy = 0\<rparr> = Some []
   \<and> spec_link_alpha CFG_B \<lparr>ax = 0, ay = 0, x = 0, y = 0, vx = 0, vy = 0\<rparr>
         \<lparr>ax = 34, ay = 0, x = 34, y = 0, vx = 0, vy = 0\<rparr> = 0
   \<and> dist2 \<lparr>ax = 0, ay = 0, x = 0, y = 0, vx = 0, vy = 0\<rparr>
         \<lparr>ax = 17, ay = 0, x = 17, y = 0, vx = 0, vy = 0\<rparr> < (linkDist CFG_B)\<^sup>2
   \<and> 0 < linkAlpha CFG_B
   \<and> 0 < spec_link_alpha CFG_B \<lparr>ax = 0, ay = 0, x = 0, y = 0, vx = 0, vy = 0\<rparr>
         \<lparr>ax = 17, ay = 0, x = 17, y = 0, vx = 0, vy = 0\<rparr>
   \<and> spec_link_alpha CFG_B \<lparr>ax = 0, ay = 0, x = 0, y = 0, vx = 0, vy = 0\<rparr>
         \<lparr>ax = 17, ay = 0, x = 17, y = 0, vx = 0, vy = 0\<rparr> \<le> linkAlpha CFG_B"
proof -
  let ?a = "\<lparr>ax = 0, ay = 0, x = 0, y = 0, vx = 0, vy = 0\<rparr>"
  let ?b = "\<lparr>ax = 17, ay = 0, x = 17, y = 0, vx = 0, vy = 0\<rparr>"
  let ?c = "\<lparr>ax = 34, ay = 0, x = 34, y = 0, vx = 0, vy = 0\<rparr>"
  let ?a' = "\<lparr>ax = 5, ay = 5, x = 0, y = 0, vx = 1, vy = 1\<rparr>"
  note T1 = link_rendering_law [of CFG_B "[?a, ?b, ?c]" ?a ?a']
  note T2 = link_rendering_law [of CFG_B "[?a, ?b, ?c]" ?a ?c]
  note T3 = link_rendering_law [of CFG_B "[?a, ?b, ?c]" ?a ?b]
  have u: "[0..<3] = [0, 1, 2]" "[1..<3] = [1, 2]" "[2..<3] = [2]" "[3..<3] = []"
    by (simp_all add: upt_rec)
  have d: "dist2 ?a ?b = 289" "dist2 ?a ?c = 1156" "dist2 ?b ?c = 289"
    "(linkDist CFG_B)\<^sup>2 = 1156"
    by (simp_all add: dist2_def CFG_B_def)
  have p: "linkDist CFG_B \<noteq> 0" "0 < linkAlpha CFG_B" by (simp_all add: CFG_B_def)
  have al: "toFixed3 (spec_link_alpha CFG_B ?a ?b) = 165 / 1000"
    "toFixed3 (spec_link_alpha CFG_B ?b ?c) = 165 / 1000"
    by (simp_all add: spec_link_alpha_def d toFixed3_def) (simp_all add: CFG_B_def)
  have g1: "draw_links CFG_B [?a, ?b, ?c]
     = Some [Stroke (165 / 1000) 0 0 17 0, Stroke (165 / 1000) 17 0 34 0]"
    using T1 [THEN conjunct1] by (simp add: u d al)
  have h: "x ?a = x ?a' \<and> y ?a = y ?a'" by simp
  have g2: "link CFG_B ?a ?a' = Some [Stroke (22 / 100) 0 0 0 0]"
    using T1 [THEN conjunct2, THEN conjunct2, THEN conjunct1, THEN mp, OF h]
    by (simp add: CFG_B_def)
  have e: "dist2 ?a ?c = (linkDist CFG_B)\<^sup>2" using d by simp
  have g3: "link CFG_B ?a ?c = Some []" "spec_link_alpha CFG_B ?a ?c = 0"
    using T2 [THEN conjunct2, THEN conjunct2, THEN conjunct2, THEN conjunct1, THEN mp, OF e] p(1)
    by simp_all
  have l: "dist2 ?a ?b < (linkDist CFG_B)\<^sup>2 \<and> 0 < linkAlpha CFG_B" using d p by simp
  have g4: "0 < spec_link_alpha CFG_B ?a ?b \<and> spec_link_alpha CFG_B ?a ?b \<le> linkAlpha CFG_B"
    using T3 [THEN conjunct2, THEN conjunct2, THEN conjunct2, THEN conjunct2, THEN mp, OF l] .
  from g1 h g2 e p g3 l g4 show ?thesis by (intro conjI) simp_all
qed

section \<open>Statistical placement (variant B)\<close>

lemma redraw_zero_nonzero: "u \<noteq> 0 \<Longrightarrow> redraw_zero rnd u k = Some (u, k)"
  by (subst redraw_zero.simps) simp

lemma redraw_zero_returns:
  "rnd (k + j) \<noteq> 0 \<Longrightarrow> \<exists>u k'. redraw_zero rnd 0 k = Some (u, k') \<and> u \<noteq> 0 \<and> k < k'"
proof (induction j arbitrary: k)
  case 0
  then have "redraw_zero rnd 0 k = Some (rnd k, k + 1)"
    by (subst redraw_zero.simps) (simp add: redraw_zero_nonzero)
  with 0 show ?case by simp
next
  case (Suc j)
  show ?case
  proof (cases "rnd k = 0")
    case True
    then have e: "redraw_zero rnd 0 k = redraw_zero rnd 0 (k + 1)"
      by (subst redraw_zero.simps) simp
    from Suc.prems have "rnd (k + 1 + j) \<noteq> 0" by simp
    then obtain u k' where "redraw_zero rnd 0 (k + 1) = Some (u, k')" "u \<noteq> 0" "k + 1 < k'"
      using Suc.IH [of "k + 1"] by blast
    with e show ?thesis by auto
  next
    case False
    then have "redraw_zero rnd 0 k = Some (rnd k, k + 1)"
      by (subst redraw_zero.simps) (simp add: redraw_zero_nonzero)
    with False show ?thesis by simp
  qed
qed

lemma randn_returns:
  assumes "\<forall>i. \<exists>j\<ge>i. rnd j \<noteq> 0"
  shows "\<exists>g k'. randn rnd k = Some (g, k')"
proof -
  from assms obtain j where "j \<ge> k" "rnd j \<noteq> 0" by blast
  then have "rnd (k + (j - k)) \<noteq> 0" by simp
  then obtain u k1 where a: "redraw_zero rnd 0 k = Some (u, k1)"
    using redraw_zero_returns by blast
  from assms obtain j1 where "j1 \<ge> k1" "rnd j1 \<noteq> 0" by blast
  then have "rnd (k1 + (j1 - k1)) \<noteq> 0" by simp
  then obtain v k2 where b: "redraw_zero rnd 0 k1 = Some (v, k2)"
    using redraw_zero_returns by blast
  from a b show ?thesis by (simp add: randn_def)
qed

lemma at_rest_makeNode: "at_rest (makeNode px py)"
  by (simp add: at_rest_def makeNode_def)

lemma canopy_node_rest: "canopy_node rnd W H i k = Some (n, k') \<Longrightarrow> at_rest n"
  by (auto simp: canopy_node_def Let_def bind_eq_Some_conv at_rest_makeNode)

lemma trunk_node_rest: "trunk_node c rnd W H i k = Some (n, k') \<Longrightarrow> at_rest n"
  by (auto simp: trunk_node_def Let_def bind_eq_Some_conv at_rest_makeNode)

lemma canopy_node_returns:
  assumes "\<forall>i. \<exists>j\<ge>i. rnd j \<noteq> 0"
  shows "\<exists>r. canopy_node rnd W H i k = Some r"
  using randn_returns [OF assms, of "k + 1"]
  by (auto simp: canopy_node_def Let_def)

lemma trunk_node_returns:
  assumes "\<forall>i. \<exists>j\<ge>i. rnd j \<noteq> 0"
  shows "\<exists>r. trunk_node c rnd W H i k = Some r"
proof -
  have "max 1 (real (trunkNodes c) - 1) \<noteq> 0" by simp
  then show ?thesis
    using randn_returns [OF assms, of k]
    by (auto simp: trunk_node_def Let_def js_div_Some)
qed

lemma push_each_rest:
  assumes "\<And>i k n k'. body i k = Some (n, k') \<Longrightarrow> at_rest n"
  shows "push_each body js k = Some (ns, k') \<Longrightarrow> length ns = length js \<and> (\<forall>n\<in>set ns. at_rest n)"
proof (induction js arbitrary: k ns k')
  case Nil
  then show ?case by simp
next
  case (Cons i js)
  then show ?case
    by (auto simp: bind_eq_Some_conv dest: assms)
qed

lemma push_each_returns:
  assumes "\<And>i k. \<exists>r. body i k = Some r"
  shows "\<exists>r. push_each body js k = Some r"
proof (induction js arbitrary: k)
  case Nil
  show ?case by simp
next
  case (Cons i js)
  obtain n k1 where a: "body i k = Some (n, k1)" using assms [of i k] by auto
  obtain ns k2 where b: "push_each body js k1 = Some (ns, k2)" using Cons [of k1] by auto
  from a b show ?case by simp
qed

lemma buildTree_rest:
  assumes "buildTree c rnd W H k = Some (ns, k')"
  shows "length ns = canopyNodes c + trunkNodes c \<and> (\<forall>n\<in>set ns. at_rest n)"
proof -
  from assms obtain canopy k1 trunk where
    a: "push_each (canopy_node rnd W H) [0..<canopyNodes c] k = Some (canopy, k1)"
    and b: "push_each (trunk_node c rnd W H) [0..<trunkNodes c] k1 = Some (trunk, k')"
    and ns: "ns = canopy @ trunk"
    by (auto simp: buildTree_def bind_eq_Some_conv)
  have "length canopy = canopyNodes c \<and> (\<forall>n\<in>set canopy. at_rest n)"
    using push_each_rest [OF canopy_node_rest a] by simp
  moreover have "length trunk = trunkNodes c \<and> (\<forall>n\<in>set trunk. at_rest n)"
    using push_each_rest [OF trunk_node_rest b] by simp
  ultimately show ?thesis using ns by auto
qed

lemma buildTree_returns:
  assumes "\<forall>i. \<exists>j\<ge>i. rnd j \<noteq> 0"
  shows "\<exists>r. buildTree c rnd W H k = Some r"
proof -
  obtain canopy k1 where a: "push_each (canopy_node rnd W H) [0..<canopyNodes c] k = Some (canopy, k1)"
    using push_each_returns [of "canopy_node rnd W H", OF canopy_node_returns [OF assms]] by fastforce
  obtain trunk k2 where b: "push_each (trunk_node c rnd W H) [0..<trunkNodes c] k1 = Some (trunk, k2)"
    using push_each_returns [of "trunk_node c rnd W H", OF trunk_node_returns [OF assms]] by fastforce
  from a b show ?thesis by (simp add: buildTree_def)
qed

subsection \<open>C10: the placed nodes are at rest\<close>

text \<open>
  Claim C10. Whenever \<^verbatim>\<open>buildTree\<close> returns (directly or through \<^verbatim>\<open>resize\<close>, which
  runs at startup and on every resize), it has produced \<open>canopyNodes + trunkNodes\<close>
  nodes, each with its position on its anchor and both velocity components zero. It
  returns whenever \<^verbatim>\<open>Math.random\<close> keeps producing nonzero values, which is what the
  two redraw loops of \<^verbatim>\<open>randn\<close> wait for.
\<close>

theorem placed_nodes_at_rest:
  "(buildTree c rnd W H k = Some (ns, k') \<longrightarrow>
      length ns = canopyNodes c + trunkNodes c \<and> (\<forall>n\<in>set ns. at_rest n))
   \<and> (resize_B c rnd rw rh ratio st k = Some (wh, st', k') \<longrightarrow>
      length (nodes_B st') = canopyNodes c + trunkNodes c \<and> (\<forall>n\<in>set (nodes_B st'). at_rest n))
   \<and> ((\<forall>i. \<exists>j\<ge>i. rnd j \<noteq> 0) \<longrightarrow>
      (\<exists>ns1 k1. buildTree c rnd W H k = Some (ns1, k1))
      \<and> (\<exists>wh1 st1 k1. resize_B c rnd rw rh ratio st k = Some (wh1, st1, k1)))"
proof -
  have r: "length (nodes_B st') = canopyNodes c + trunkNodes c \<and> (\<forall>n\<in>set (nodes_B st'). at_rest n)"
    if "resize_B c rnd rw rh ratio st k = Some (wh, st', k')"
  proof -
    from that obtain ns1 where
      "buildTree c rnd (max 1 (of_int \<lfloor>rw\<rfloor>)) (max 1 (of_int \<lfloor>rh\<rfloor>)) k = Some (ns1, k')"
      "nodes_B st' = ns1"
      by (auto simp: resize_B_def Let_def bind_eq_Some_conv)
    then show ?thesis using buildTree_rest by blast
  qed
  have t: "(\<exists>ns1 k1. buildTree c rnd W H k = Some (ns1, k1))
      \<and> (\<exists>wh1 st1 k1. resize_B c rnd rw rh ratio st k = Some (wh1, st1, k1))"
    if g: "\<forall>i. \<exists>j\<ge>i. rnd j \<noteq> 0"
  proof -
    obtain ns2 k2 where
      "buildTree c rnd (max 1 (of_int \<lfloor>rw\<rfloor>)) (max 1 (of_int \<lfloor>rh\<rfloor>)) k = Some (ns2, k2)"
      using buildTree_returns [OF g] by fastforce
    then have "\<exists>wh1 st1 k1. resize_B c rnd rw rh ratio st k = Some (wh1, st1, k1)"
      by (simp add: resize_B_def Let_def)
    moreover have "\<exists>ns1 k1. buildTree c rnd W H k = Some (ns1, k1)"
      using buildTree_returns [OF g, of c W H k] by auto
    ultimately show ?thesis by blast
  qed
  show ?thesis using buildTree_rest [of c rnd W H k ns k'] r t by blast
qed

theorem placed_nodes_at_rest_witness:
  "(\<forall>i. \<exists>j\<ge>i. (\<lambda>_::nat. 1 / 2 :: real) j \<noteq> 0)
   \<and> (\<exists>ns k'. buildTree CFG_B (\<lambda>_. 1 / 2) 800 600 0 = Some (ns, k')
        \<and> length ns = 265 \<and> (\<forall>n\<in>set ns. at_rest n))
   \<and> (\<exists>wh st' k'. resize_B CFG_B (\<lambda>_. 1 / 2) (8005 / 10) (6005 / 10) 1
          \<lparr>nodes_B = [], mouse_B = \<lparr>mouse_x = - 9999, mouse_y = - 9999, active = False\<rparr>,
           lastT_B = 0, dpr = 1\<rparr> 0 = Some (wh, st', k')
        \<and> length (nodes_B st') = 265 \<and> (\<forall>n\<in>set (nodes_B st'). at_rest n))"
proof -
  let ?st = "\<lparr>nodes_B = [], mouse_B = \<lparr>mouse_x = - 9999, mouse_y = - 9999, active = False\<rparr>,
           lastT_B = 0, dpr = 1\<rparr>"
  have g: "\<forall>i. \<exists>j\<ge>i. (\<lambda>_::nat. 1 / 2 :: real) j \<noteq> 0" by auto
  have n: "canopyNodes CFG_B + trunkNodes CFG_B = 265" by (simp add: CFG_B_def)
  obtain ns k' where b: "buildTree CFG_B (\<lambda>_. 1 / 2) 800 600 0 = Some (ns, k')"
    using placed_nodes_at_rest [of CFG_B "\<lambda>_. 1 / 2" 800 600 0,
        THEN conjunct2, THEN conjunct2, THEN mp, OF g] by blast
  have b': "length ns = canopyNodes CFG_B + trunkNodes CFG_B \<and> (\<forall>n\<in>set ns. at_rest n)"
    using placed_nodes_at_rest [of CFG_B "\<lambda>_. 1 / 2" 800 600 0 ns k',
        THEN conjunct1, THEN mp, OF b] .
  obtain wh st' k1 where r: "resize_B CFG_B (\<lambda>_. 1 / 2) (8005 / 10) (6005 / 10) 1 ?st 0
      = Some (wh, st', k1)"
    using placed_nodes_at_rest [of CFG_B "\<lambda>_. 1 / 2" 800 600 0 _ _ "8005 / 10" "6005 / 10" 1 ?st,
        THEN conjunct2, THEN conjunct2, THEN mp, OF g] by blast
  have r': "length (nodes_B st') = canopyNodes CFG_B + trunkNodes CFG_B
      \<and> (\<forall>n\<in>set (nodes_B st'). at_rest n)"
    using placed_nodes_at_rest [of CFG_B "\<lambda>_. 1 / 2" 800 600 0 _ k1 "8005 / 10" "6005 / 10" 1
        ?st wh st', THEN conjunct2, THEN conjunct1, THEN mp, OF r] .
  from g b b' r r' n show ?thesis by metis
qed

end
